theory Spec2Isabelle
  imports Main
begin

section \<open>Go values shared by the packages\<close>

text \<open>A Go \<^verbatim>\<open>error\<close> value is modelled by its message; a nil error is \<open>None\<close> of
  \<open>error option\<close>, and a \<^verbatim>\<open>(T, error)\<close> result is \<open>error + T\<close>.\<close>

type_synonym error = string

section \<open>The tag and view machinery the reporters call\<close>

text \<open>The reporters are written against go.opencensus.io (\<^verbatim>\<open>tag\<close>, \<^verbatim>\<open>stats\<close>,
  \<^verbatim>\<open>stats/view\<close>) and knative.dev/pkg/metrics. Those packages are libraries outside the
  repository; what follows is the part of their behaviour the reporters rely on.

  A \<^verbatim>\<open>tag.Key\<close> is identified by its name. The tag map carried by a context is an
  association list from keys to values; \<^verbatim>\<open>context.Background()\<close> carries the empty one.\<close>

type_synonym Key = string
type_synonym tag_map = "(Key \<times> string) list"
type_synonym Mutator = "tag_map \<Rightarrow> error + tag_map"

definition maxKeyLength :: nat where
  "maxKeyLength = 255"

text \<open>Key names and tag values are printable ASCII (bytes 32 to 126).\<close>

definition isASCII :: "string \<Rightarrow> bool" where
  "isASCII s = list_all (\<lambda>c. 32 \<le> (of_char c :: nat) \<and> (of_char c :: nat) \<le> 126) s"

definition checkKeyName :: "string \<Rightarrow> bool" where
  "checkKeyName name = (length name \<le> maxKeyLength \<and> 0 < length name \<and> isASCII name)"

definition checkValue :: "string \<Rightarrow> bool" where
  "checkValue v = (length v \<le> maxKeyLength \<and> isASCII v)"

definition errInvalidKeyName :: error where
  "errInvalidKeyName = ''invalid key name: only ASCII characters accepted; max length must be 255 characters''"

definition errInvalidValue :: error where
  "errInvalidValue = ''invalid value: only ASCII characters accepted; max length must be 255 characters''"

definition NewKey :: "string \<Rightarrow> error + Key" where
  "NewKey name = (if \<not> checkKeyName name then Inl errInvalidKeyName else Inr name)"

text \<open>\<^verbatim>\<open>tag.Insert(k, v)\<close>: rejects an invalid value; otherwise adds the tag unless the
  key is already present (an existing value is kept).\<close>

definition Insert :: "Key \<Rightarrow> string \<Rightarrow> Mutator" where
  "Insert k v m =
     (if \<not> checkValue v then Inl errInvalidValue
      else if map_of m k \<noteq> None then Inr m
      else Inr (m @ [(k, v)]))"

text \<open>\<^verbatim>\<open>tag.New(ctx, mutators...)\<close>: applies the mutators in order to the tag map of
  \<open>ctx\<close>, stopping at the first error.\<close>

fun New :: "tag_map \<Rightarrow> Mutator list \<Rightarrow> error + tag_map" where
  "New m [] = Inr m"
| "New m (f # fs) = (case f m of Inl e \<Rightarrow> Inl e | Inr m' \<Rightarrow> New m' fs)"

datatype Aggregation = Count | Distribution

record View =
  Name :: string
  Description :: string
  Measure :: string
  Aggregation :: Aggregation
  TagKeys :: "Key list"

text \<open>A registered view with the data collected so far: one row per tag signature, holding
  the measurements recorded under it in order. The count of a row is the length of its list.\<close>

type_synonym rows = "(tag_map \<times> int list) list"

record viewInternal =
  view :: View
  collected :: rows

text \<open>The views registered in the process (global state of the view package).\<close>

type_synonym worker = "viewInternal list"

definition registered :: "string \<Rightarrow> worker \<Rightarrow> bool" where
  "registered n w = (find (\<lambda>vi. Name (view vi) = n) w \<noteq> None)"

text \<open>\<^verbatim>\<open>view.Register\<close>. A view without a name takes the name of its measure. When a
  view of that name is already registered, the call compares the two views (\<open>same\<close>:
  aggregation, name and measure): for the same view it returns no error and leaves the
  registry, with the data collected so far, as it is; for a different view it returns an
  error. Otherwise the view is added with no data.\<close>

definition same :: "View \<Rightarrow> View \<Rightarrow> bool" where
  "same v other = (Aggregation v = Aggregation other \<and> Name v = Name other \<and>
                   Measure v = Measure other)"

definition Register :: "View \<Rightarrow> worker \<Rightarrow> error + worker" where
  "Register v w =
     (let v' = (if Name v = [] then v\<lparr>Name := Measure v\<rparr> else v)
      in (case find (\<lambda>vi. Name (view vi) = Name v') w of
            Some x \<Rightarrow>
              (if \<not> same (view x) v'
               then Inl (''cannot register view '' @ Name v' @
                         ''; a different view with the same name is already registered'')
               else Inr w)
          | None \<Rightarrow> Inr (w @ [\<lparr>view = v', collected = []\<rparr>])))"

text \<open>\<^verbatim>\<open>metricstest.Unregister(names...)\<close>: removes the named views and their data.\<close>

definition Unregister :: "string list \<Rightarrow> worker \<Rightarrow> worker" where
  "Unregister names w = filter (\<lambda>vi. Name (view vi) \<notin> set names) w"

text \<open>The tag signature of a measurement in a view: the tags of the context whose keys are
  keys of the view, in the view's key order. A tag whose value is the empty string is left
  out of the signature, like a tag the context does not have.\<close>

definition row_tags :: "Key list \<Rightarrow> tag_map \<Rightarrow> tag_map" where
  "row_tags keys m =
     List.map_filter
       (\<lambda>k. case map_of m k of None \<Rightarrow> None
                              | Some v \<Rightarrow> (if v = [] then None else Some (k, v))) keys"

text \<open>The tags of a tag map whose value is not empty.\<close>

definition nonempty :: "tag_map \<Rightarrow> tag_map" where
  "nonempty m = filter (\<lambda>t. snd t \<noteq> []) m"

fun addSample :: "tag_map \<Rightarrow> int \<Rightarrow> rows \<Rightarrow> rows" where
  "addSample sig x [] = [(sig, [x])]"
| "addSample sig x ((s, xs) # rs) =
     (if s = sig then (s, xs @ [x]) # rs else (s, xs) # addSample sig x rs)"

text \<open>\<^verbatim>\<open>metrics.Record(ctx, measure.M(x))\<close>: every registered view of the measure
  aggregates \<open>x\<close> in the row of the context's tag signature.\<close>

definition Record :: "tag_map \<Rightarrow> string \<Rightarrow> int \<Rightarrow> worker \<Rightarrow> worker" where
  "Record ctx m x w =
     map (\<lambda>vi. if Measure (view vi) = m
                then vi\<lparr>collected := addSample (row_tags (TagKeys (view vi)) ctx) x (collected vi)\<rparr>
                else vi) w"

text \<open>Reading a view, as the tests do through \<^verbatim>\<open>metricstest\<close>: the rows of the view
  named \<open>n\<close>, and the measurements recorded under exactly the tag set \<open>want\<close>.\<close>

definition rowsOf :: "string \<Rightarrow> worker \<Rightarrow> rows" where
  "rowsOf n w = (case find (\<lambda>vi. Name (view vi) = n) w of None \<Rightarrow> [] | Some vi \<Rightarrow> collected vi)"

definition same_tags :: "tag_map \<Rightarrow> tag_map \<Rightarrow> bool" where
  "same_tags s want = (list_all (\<lambda>t. t \<in> set want) s \<and> list_all (\<lambda>t. t \<in> set s) want)"

definition samplesFor :: "string \<Rightarrow> tag_map \<Rightarrow> worker \<Rightarrow> int list" where
  "samplesFor n want w = concat (map snd (filter (\<lambda>row. same_tags (fst row) want) (rowsOf n w)))"

section \<open>Label names\<close>

text \<open>The label constants come from \<^verbatim>\<open>knative.dev/pkg/metrics/metricskey\<close> and from the
  repository's \<^verbatim>\<open>pkg/metrics/metricskey\<close>; neither declaration is among the source
  files, so the names are a parameter of the reporters.\<close>

record metricskey =
  LabelNamespaceName :: string
  LabelEventType :: string
  LabelEventSource :: string
  LabelImporterName :: string
  LabelImporterResourceGroup :: string
  metricsKeyEventing_Result :: string
  LabelBrokerName :: string
  LabelResponseCode :: string
  LabelResponseCodeClass :: string

text \<open>One assignment of label names, used for the concrete runs below.\<close>

definition knativeKeys :: metricskey where
  "knativeKeys = \<lparr>
     LabelNamespaceName = ''namespace_name'',
     LabelEventType = ''event_type'',
     LabelEventSource = ''event_source'',
     LabelImporterName = ''importer_name'',
     LabelImporterResourceGroup = ''importer_resource_group'',
     metricsKeyEventing_Result = ''result'',
     LabelBrokerName = ''broker_name'',
     LabelResponseCode = ''response_code'',
     LabelResponseCodeClass = ''response_code_class''\<rparr>"

section \<open>The apiserver stats reporter (package apiserver)\<close>

definition eventCountM :: string where
  "eventCountM = ''event_count''"

definition eventCountM_Description :: string where
  "eventCountM_Description = ''Number of events created''"

record ReportArgs =
  ns :: string
  eventType :: string
  eventSource :: string
  apiServerImporter :: string

definition importerResourceGroupValue :: string where
  "importerResourceGroupValue = ''apiserversources.sources.eventing.knative.dev''"

record reporter =
  namespaceTagKey :: Key
  eventTypeTagKey :: Key
  eventSourceTagKey :: Key
  importerNameTagKey :: Key
  importerResourceGroupTagKey :: Key
  resultKey :: Key

text \<open>\<^verbatim>\<open>NewStatsReporter\<close>: six tag keys, then the registration of the count view over
  five of them (the result key is not among the view's keys).\<close>

definition NewStatsReporter :: "metricskey \<Rightarrow> worker \<Rightarrow> error + (reporter \<times> worker)" where
  "NewStatsReporter K w =
     (case NewKey (LabelNamespaceName K) of Inl err \<Rightarrow> Inl err | Inr nsTag \<Rightarrow>
     (case NewKey (LabelEventType K) of Inl err \<Rightarrow> Inl err | Inr eventTypeTag \<Rightarrow>
     (case NewKey (LabelEventSource K) of Inl err \<Rightarrow> Inl err | Inr eventSourceTag \<Rightarrow>
     (case NewKey (LabelImporterName K) of Inl err \<Rightarrow> Inl err | Inr importerNameTag \<Rightarrow>
     (case NewKey (LabelImporterResourceGroup K) of Inl err \<Rightarrow> Inl err | Inr importerResourceGroupTag \<Rightarrow>
     (case NewKey (metricsKeyEventing_Result K) of Inl err \<Rightarrow> Inl err | Inr resultTag \<Rightarrow>
       (let r = \<lparr>namespaceTagKey = nsTag, eventTypeTagKey = eventTypeTag,
                 eventSourceTagKey = eventSourceTag, importerNameTagKey = importerNameTag,
                 importerResourceGroupTagKey = importerResourceGroupTag, resultKey = resultTag\<rparr>
        in (case Register \<lparr>Name = [], Description = eventCountM_Description, Measure = eventCountM,
                           Aggregation = Count,
                           TagKeys = [namespaceTagKey r, eventSourceTagKey r, eventTypeTagKey r,
                                      importerNameTagKey r, importerResourceGroupTagKey r]\<rparr> w of
              Inl err \<Rightarrow> Inl err
            | Inr w' \<Rightarrow> Inr (r, w')))))))))"

text \<open>Modelled from the spec: \<^verbatim>\<open>Result(err)\<close> of package apiserver is called by
  \<^verbatim>\<open>ReportEventCount\<close> but declared in a file that is not among the sources; the
  specification gives it as "success" if the passed delivery error is nil, else "failure".\<close>

definition Result :: "error option \<Rightarrow> string" where
  "Result err = (if err = None then ''success'' else ''failure'')"

definition generateTag :: "reporter \<Rightarrow> ReportArgs \<Rightarrow> Mutator \<Rightarrow> error + tag_map" where
  "generateTag r args t =
     New [] [Insert (namespaceTagKey r) (ns args),
             Insert (eventSourceTagKey r) (eventSource args),
             Insert (eventTypeTagKey r) (eventType args),
             Insert (importerNameTagKey r) (apiServerImporter args),
             t]"

text \<open>\<^verbatim>\<open>ReportEventCount\<close>. The context built with the result tag is assigned to
  \<open>ctx\<close> and then replaced by a second context, built from the background context with
  the resource group tag; the second one is recorded.\<close>

definition ReportEventCount ::
  "reporter \<Rightarrow> ReportArgs \<Rightarrow> error option \<Rightarrow> worker \<Rightarrow> error option \<times> worker" where
  "ReportEventCount r args err w =
     (case generateTag r args (Insert (resultKey r) (Result err)) of
        Inl e \<Rightarrow> (Some e, w)
      | Inr ctx \<Rightarrow>
          (case generateTag r args (Insert (importerResourceGroupTagKey r) importerResourceGroupValue) of
             Inl e \<Rightarrow> (Some e, w)
           | Inr ctx' \<Rightarrow> (None, Record ctx' eventCountM 1 w)))"

text \<open>\<^verbatim>\<open>unregister\<close> of the reporter's test file.\<close>

definition unregister :: "worker \<Rightarrow> worker" where
  "unregister w = Unregister [''event_count''] w"

text \<open>A sequence of report calls on one reporter; a call's returned error does not stop
  the caller.\<close>

fun reports :: "reporter \<Rightarrow> (ReportArgs \<times> error option) list \<Rightarrow> worker \<Rightarrow> worker" where
  "reports r [] w = w"
| "reports r ((args, err) # cs) w = reports r cs (snd (ReportEventCount r args err w))"

text \<open>The values of the two reporter tests: \<^verbatim>\<open>TestStatsReporter\<close> and
  \<^verbatim>\<open>TestReporterEmptySourceAndType\<close> (neither sets \<^verbatim>\<open>apiServerImporter\<close>).\<close>

definition testArgs :: ReportArgs where
  "testArgs = \<lparr>ns = ''testns'', eventType = ''dev.knative.apiserver.ref.delete'',
                eventSource = ''unit-test'', apiServerImporter = []\<rparr>"

definition emptyArgs :: ReportArgs where
  "emptyArgs = \<lparr>ns = ''testns'', eventType = [], eventSource = [], apiServerImporter = []\<rparr>"

text \<open>The tag set \<^verbatim>\<open>wantTags1\<close> that \<^verbatim>\<open>TestStatsReporter\<close> expects the count under.\<close>

definition wantTags1 :: "metricskey \<Rightarrow> tag_map" where
  "wantTags1 K = [(LabelNamespaceName K, ''testns''),
                  (LabelEventType K, ''dev.knative.apiserver.ref.delete''),
                  (LabelEventSource K, ''unit-test''),
                  (metricsKeyEventing_Result K, ''success'')]"

text \<open>The tag sets under which the two tests' reports are recorded.\<close>

definition testTags :: tag_map where
  "testTags = [(''namespace_name'', ''testns''), (''event_source'', ''unit-test''),
               (''event_type'', ''dev.knative.apiserver.ref.delete''),
               (''importer_resource_group'', ''apiserversources.sources.eventing.knative.dev'')]"

definition emptyTags :: tag_map where
  "emptyTags = [(''namespace_name'', ''testns''),
                (''importer_resource_group'', ''apiserversources.sources.eventing.knative.dev'')]"

text \<open>The context that \<^verbatim>\<open>generateTag\<close> builds for the arguments of
  \<^verbatim>\<open>TestReporterEmptySourceAndType\<close> and the resource group tag.\<close>

definition emptyContext :: tag_map where
  "emptyContext = [(''namespace_name'', ''testns''), (''event_source'', []), (''event_type'', []),
                   (''importer_name'', []),
                   (''importer_resource_group'', ''apiserversources.sources.eventing.knative.dev'')]"

text \<open>The tag set \<^verbatim>\<open>wantTags\<close> of that test, for a value \<open>any\<close> of
  \<^verbatim>\<open>metricskey.Any\<close> (a constant whose declaration is not among the sources).\<close>

definition wantTagsAny :: "metricskey \<Rightarrow> string \<Rightarrow> tag_map" where
  "wantTagsAny K any = [(LabelNamespaceName K, ''testns''),
                        (metricsKeyEventing_Result K, ''success''),
                        (LabelEventSource K, any),
                        (LabelEventType K, any)]"

text \<open>The reporter and the view that a successful \<^verbatim>\<open>NewStatsReporter\<close> produces.\<close>

definition reporterOf :: "metricskey \<Rightarrow> reporter" where
  "reporterOf K = \<lparr>namespaceTagKey = LabelNamespaceName K, eventTypeTagKey = LabelEventType K,
                   eventSourceTagKey = LabelEventSource K, importerNameTagKey = LabelImporterName K,
                   importerResourceGroupTagKey = LabelImporterResourceGroup K,
                   resultKey = metricsKeyEventing_Result K\<rparr>"

definition eventCountView :: "metricskey \<Rightarrow> View" where
  "eventCountView K = \<lparr>Name = eventCountM, Description = eventCountM_Description,
                       Measure = eventCountM, Aggregation = Count,
                       TagKeys = [LabelNamespaceName K, LabelEventSource K, LabelEventType K,
                                  LabelImporterName K, LabelImporterResourceGroup K]\<rparr>"

definition valid_keys :: "metricskey \<Rightarrow> bool" where
  "valid_keys K = list_all checkKeyName
     [LabelNamespaceName K, LabelEventType K, LabelEventSource K,
      LabelImporterName K, LabelImporterResourceGroup K, metricsKeyEventing_Result K]"

text \<open>The tag set of a report of the apiserver reporter, and arguments whose fields are
  valid tag values.\<close>

definition apiserverTags :: "metricskey \<Rightarrow> ReportArgs \<Rightarrow> tag_map" where
  "apiserverTags K args =
     [(LabelNamespaceName K, ns args), (LabelEventSource K, eventSource args),
      (LabelEventType K, eventType args), (LabelImporterName K, apiServerImporter args),
      (LabelImporterResourceGroup K, importerResourceGroupValue)]"

definition valid_args :: "ReportArgs \<Rightarrow> bool" where
  "valid_args args = list_all checkValue [ns args, eventSource args, eventType args, apiServerImporter args]"

text \<open>Every row of the count view carries the resource group value under key \<open>k\<close>.\<close>

definition rg_inv :: "Key \<Rightarrow> worker \<Rightarrow> bool" where
  "rg_inv k w = (\<forall>vi \<in> set w. Name (view vi) = eventCountM \<longrightarrow>
      k \<in> set (TagKeys (view vi)) \<and>
      (\<forall>row \<in> set (collected vi). map_of (fst row) k = Some importerResourceGroupValue))"

section \<open>The adapter process (main.go of the receive adapter command)\<close>

record envConfig =
  Namespace :: string
  Mode :: string
  SinkURI :: string
  ApiVersion :: "string list"
  Kind :: "string list"
  Controller :: "bool list"
  ApiServerImporter :: string
  MetricsConfigBase64 :: string
  LoggingConfigBase64 :: string

text \<open>Types of k8s.io/apimachinery and of package apiserver that \<^verbatim>\<open>main\<close> builds:
  group/version, group/version/kind, group/version/resource, a resource with its controller
  flag, and the adapter's options (namespace, mode, resources).\<close>

datatype GroupVersion = GroupVersion string string
datatype GroupVersionKind = GroupVersionKind string string string
datatype GroupVersionResource = GroupVersionResource string string string
datatype GVRC = GVRC GroupVersionResource bool
datatype Options = Options string string "GVRC list"
datatype ExporterOptions = ExporterOptions

text \<open>What the collaborators of \<^verbatim>\<open>main\<close> answer in one run of the process. Each field is
  the result of the call of that name; \<open>Base64ToMetricsOptions\<close> returns a pointer (nil is
  \<open>None\<close>) and an error; \<open>Start\<close> is the result of \<^verbatim>\<open>a.Start(stopCh)\<close> for the adapter
  built from the given options, once it returns. \<open>served\<close> tells which kinds the API server
  resolves to a watchable resource type; no call of \<^verbatim>\<open>main\<close> reads it.\<close>

record world =
  envconfig_Process :: "error + envConfig"
  Base64ToLoggingConfig :: "string \<Rightarrow> error option"
  NewConfigFromMap :: "error option"
  Base64ToMetricsOptions :: "string \<Rightarrow> ExporterOptions option \<times> error option"
  UpdateExporter :: "ExporterOptions \<Rightarrow> error option"
  BuildConfigFromFlags :: "error option"
  NewForConfig :: "error option"
  SetupStaticPublishing :: "error option"
  NewDefaultClient :: "string \<Rightarrow> error option"
  ParseGroupVersion :: "string \<Rightarrow> error + GroupVersion"
  UnsafeGuessKindToResource :: "GroupVersionKind \<Rightarrow> GroupVersionResource"
  Start :: "Options \<Rightarrow> error option"
  served :: "GroupVersionKind \<Rightarrow> bool"

text \<open>How the process ends: a Go panic, \<^verbatim>\<open>logger.Fatal*\<close> (which exits), or \<^verbatim>\<open>main\<close>
  returning after \<^verbatim>\<open>a.Start\<close> was called with the options and returned the result.\<close>

datatype outcome =
    Panicked string
  | Fatal string
  | Returned Options "error option"

fun exit_status :: "outcome \<Rightarrow> nat" where
  "exit_status (Panicked msg) = 2"
| "exit_status (Fatal msg) = 1"
| "exit_status (Returned opt res) = 0"

fun reaches_Start :: "outcome \<Rightarrow> bool" where
  "reaches_Start (Returned opt res) = True"
| "reaches_Start (Panicked msg) = False"
| "reaches_Start (Fatal msg) = False"

text \<open>The loop over \<^verbatim>\<open>env.ApiVersion\<close>: \<open>i\<close> is the index, \<open>acc\<close> is \<open>gvrcs\<close>. Indexing
  \<^verbatim>\<open>env.Kind[i]\<close> or \<^verbatim>\<open>env.Controller[i]\<close> past the end is a run-time panic.\<close>

fun gvrcs_loop :: "world \<Rightarrow> envConfig \<Rightarrow> nat \<Rightarrow> string list \<Rightarrow> GVRC list \<Rightarrow> outcome + GVRC list" where
  "gvrcs_loop w env i [] acc = Inr acc"
| "gvrcs_loop w env i (apiVersion # rest) acc =
     (if length (Kind env) \<le> i then Inl (Panicked ''index out of range'')
      else if length (Controller env) \<le> i then Inl (Panicked ''index out of range'')
      else case ParseGroupVersion w apiVersion of
             Inl err \<Rightarrow> Inl (Fatal ''Error parsing APIVersion'')
           | Inr (GroupVersion g v) \<Rightarrow>
               gvrcs_loop w env (Suc i) rest
                 (acc @ [GVRC (UnsafeGuessKindToResource w (GroupVersionKind g v (Kind env ! i)))
                              (Controller env ! i)]))"

text \<open>\<^verbatim>\<open>main\<close>. A failed logging configuration falls back to the default one; a failed
  metrics configuration and a failed tracing setup are only logged. The stats reporter is
  created on the view registry of a fresh process. The error of \<^verbatim>\<open>a.Start\<close> is logged
  with \<^verbatim>\<open>logger.Warn\<close> and \<^verbatim>\<open>main\<close> returns.\<close>

definition main :: "metricskey \<Rightarrow> world \<Rightarrow> outcome" where
  "main K w =
     (case envconfig_Process w of
        Inl err \<Rightarrow> Panicked ''Error processing env var''
      | Inr env \<Rightarrow>
     (if Base64ToLoggingConfig w (LoggingConfigBase64 env) \<noteq> None \<and> NewConfigFromMap w \<noteq> None
      then Panicked ''logging.NewConfigFromMap''
      else
     (case fst (Base64ToMetricsOptions w (MetricsConfigBase64 env)) of
        None \<Rightarrow> Panicked ''nil pointer dereference''
      | Some metricsConfig \<Rightarrow>
     (if UpdateExporter w metricsConfig \<noteq> None
      then Fatal ''Failed to create the metrics exporter''
      else
     (case NewStatsReporter K [] of
        Inl err \<Rightarrow> Fatal ''Error building statsreporter''
      | Inr (reporter, views) \<Rightarrow>
     (if BuildConfigFromFlags w \<noteq> None then Fatal ''Error building kubeconfig''
      else if NewForConfig w \<noteq> None then Fatal ''Error building dynamic client''
      else if NewDefaultClient w (SinkURI env) \<noteq> None then Fatal ''Error building cloud event client''
      else
     (case gvrcs_loop w env 0 (ApiVersion env) [] of
        Inl failure \<Rightarrow> failure
      | Inr gvrcs \<Rightarrow>
          (let opt = Options (Namespace env) (Mode env) gvrcs
           in Returned opt (Start w opt)))))))))"

text \<open>The descriptor list that the loop builds when it completes: entry \<open>i\<close> pairs the
  guessed resource of \<open>(ApiVersion ! i, Kind ! i)\<close> with \<open>Controller ! i\<close>.\<close>

definition guessed :: "world \<Rightarrow> string \<times> string \<times> bool \<Rightarrow> GVRC" where
  "guessed w d =
     (case d of (apiVersion, kind, controlled) \<Rightarrow>
        (case ParseGroupVersion w apiVersion of
           Inr (GroupVersion g v) \<Rightarrow> GVRC (UnsafeGuessKindToResource w (GroupVersionKind g v kind)) controlled
         | Inl err \<Rightarrow> GVRC (GroupVersionResource [] [] []) controlled))"

text \<open>A configured descriptor that the API server cannot resolve to a watchable resource
  type: its apiVersion does not parse, or its group/version/kind is not served.\<close>

definition unresolvable :: "world \<Rightarrow> string \<times> string \<Rightarrow> bool" where
  "unresolvable w d =
     (case d of (apiVersion, kind) \<Rightarrow>
        (case ParseGroupVersion w apiVersion of
           Inl err \<Rightarrow> True
         | Inr (GroupVersion g v) \<Rightarrow> \<not> served w (GroupVersionKind g v kind)))"

subsection \<open>A concrete run\<close>

text \<open>\<^verbatim>\<open>schema.ParseGroupVersion\<close> of apimachinery: empty and "/" give the empty
  group/version, no slash gives a version of the core group, one slash splits group and
  version, more slashes are an error.\<close>

definition k8s_ParseGroupVersion :: "string \<Rightarrow> error + GroupVersion" where
  "k8s_ParseGroupVersion gv =
     (if gv = [] \<or> gv = ''/'' then Inr (GroupVersion [] [])
      else if count_list gv (CHR ''/'') = 0 then Inr (GroupVersion [] gv)
      else if count_list gv (CHR ''/'') = 1
        then Inr (GroupVersion (takeWhile (\<lambda>c. c \<noteq> CHR ''/'') gv)
                               (tl (dropWhile (\<lambda>c. c \<noteq> CHR ''/'') gv)))
      else Inl (''unexpected GroupVersion string: '' @ gv))"

definition toLower :: "string \<Rightarrow> string" where
  "toLower s = map (\<lambda>c. case map_of (zip ''ABCDEFGHIJKLMNOPQRSTUVWXYZ'' ''abcdefghijklmnopqrstuvwxyz'') c of
                           Some l \<Rightarrow> l | None \<Rightarrow> c) s"

text \<open>\<^verbatim>\<open>meta.UnsafeGuessKindToResource\<close> of apimachinery (its plural result, the one
  \<^verbatim>\<open>main\<close> keeps): the lower-cased kind with a plural ending. It returns no error.\<close>

definition k8s_UnsafeGuessKindToResource :: "GroupVersionKind \<Rightarrow> GroupVersionResource" where
  "k8s_UnsafeGuessKindToResource gvk =
     (case gvk of GroupVersionKind g v kind \<Rightarrow>
        if kind = [] then GroupVersionResource [] [] []
        else let singular = toLower kind in
          if length singular \<ge> 9 \<and> drop (length singular - 9) singular = ''endpoints''
            then GroupVersionResource g v singular
          else if last singular = CHR ''s'' then GroupVersionResource g v (singular @ ''es'')
          else if last singular = CHR ''y'' then GroupVersionResource g v (butlast singular @ ''ies'')
          else GroupVersionResource g v (singular @ ''s''))"

definition exampleEnv :: envConfig where
  "exampleEnv = \<lparr>Namespace = ''default'', Mode = ''Ref'', SinkURI = ''http://sink.default.svc'',
                  ApiVersion = [''v1'', ''v1''], Kind = [''Pod'', ''NoSuchKind''],
                  Controller = [False, True], ApiServerImporter = ''importer'',
                  MetricsConfigBase64 = ''e30='', LoggingConfigBase64 = ''e30=''\<rparr>"

text \<open>A run in which every collaborator succeeds and the API server serves pods only.\<close>

definition exampleWorld :: world where
  "exampleWorld = \<lparr>
     envconfig_Process = Inr exampleEnv,
     Base64ToLoggingConfig = (\<lambda>s. None),
     NewConfigFromMap = None,
     Base64ToMetricsOptions = (\<lambda>s. (Some ExporterOptions, None)),
     UpdateExporter = (\<lambda>c. None),
     BuildConfigFromFlags = None,
     NewForConfig = None,
     SetupStaticPublishing = None,
     NewDefaultClient = (\<lambda>s. None),
     ParseGroupVersion = k8s_ParseGroupVersion,
     UnsafeGuessKindToResource = k8s_UnsafeGuessKindToResource,
     Start = (\<lambda>opt. None),
     served = (\<lambda>gvk. gvk = GroupVersionKind [] ''v1'' ''Pod'')\<rparr>"

text \<open>The same run with \<^verbatim>\<open>a.Start\<close> returning an error.\<close>

definition startFailsWorld :: world where
  "startFailsWorld = exampleWorld\<lparr>Start := (\<lambda>opt. Some ''start failed'')\<rparr>"

text \<open>Runs with lists of different lengths: more kinds than versions, and the
  specification's example of two versions and one kind.\<close>

definition moreKindsEnv :: envConfig where
  "moreKindsEnv = exampleEnv\<lparr>ApiVersion := [''v1''], Kind := [''Pod'', ''Service''],
                              Controller := [False]\<rparr>"

definition moreKindsWorld :: world where
  "moreKindsWorld = exampleWorld\<lparr>envconfig_Process := Inr moreKindsEnv\<rparr>"

definition fewerKindsEnv :: envConfig where
  "fewerKindsEnv = exampleEnv\<lparr>ApiVersion := [''v1'', ''apps/v1''], Kind := [''Pod''],
                               Controller := [False, False]\<rparr>"

definition fewerKindsWorld :: world where
  "fewerKindsWorld = exampleWorld\<lparr>envconfig_Process := Inr fewerKindsEnv\<rparr>"

text \<open>A run whose second apiVersion has two slashes.\<close>

definition unparsableEnv :: envConfig where
  "unparsableEnv = exampleEnv\<lparr>ApiVersion := [''v1'', ''a/b/c'']\<rparr>"

definition unparsableWorld :: world where
  "unparsableWorld = exampleWorld\<lparr>envconfig_Process := Inr unparsableEnv\<rparr>"

section \<open>The broker ingress stats reporter (package ingress)\<close>

text \<open>Of this reporter only the test file is among the sources; its implementation
  (\<^verbatim>\<open>pkg/broker/ingress/stats_reporter.go\<close>) is not. The fields of its \<^verbatim>\<open>ReportArgs\<close>
  are the ones the test sets: \<^verbatim>\<open>ns\<close>, \<^verbatim>\<open>broker\<close>, \<^verbatim>\<open>eventType\<close>, \<^verbatim>\<open>eventSource\<close>.\<close>

record ingress_ReportArgs =
  ingress_ns :: string
  ingress_broker :: string
  ingress_eventType :: string
  ingress_eventSource :: string

record ingress_reporter =
  ingress_namespaceTagKey :: Key
  ingress_brokerTagKey :: Key
  ingress_eventTypeTagKey :: Key
  ingress_eventSourceTagKey :: Key
  ingress_responseCodeKey :: Key
  ingress_responseCodeClassKey :: Key

definition dispatchTimeInMsecM :: string where
  "dispatchTimeInMsecM = ''event_dispatch_latencies''"

text \<open>A \<^verbatim>\<open>time.Duration\<close> is a number of nanoseconds; Go's integer division truncates
  towards zero.\<close>

type_synonym Duration = int

definition Millisecond :: Duration where
  "Millisecond = 1000000"

definition go_div :: "int \<Rightarrow> int \<Rightarrow> int" where
  "go_div a b = (if a < 0 then - ((- a) div b) else a div b)"

text \<open>Decimal numerals (\<^verbatim>\<open>strconv.Itoa\<close>).\<close>

fun digits :: "nat \<Rightarrow> string" where
  "digits n = (if n < 10 then [''0123456789'' ! n]
               else digits (n div 10) @ [''0123456789'' ! (n mod 10)])"

declare digits.simps [simp del]

definition Itoa :: "int \<Rightarrow> string" where
  "Itoa i = (if i < 0 then CHR ''-'' # digits (nat (- i)) else digits (nat i))"

text \<open>Modelled from the spec: the helper that names the class of a status code is not
  among the sources; the specification gives the classes as "2xx", "5xx", that is the
  hundreds of the code followed by "xx".\<close>

definition ResponseCodeClass :: "int \<Rightarrow> string" where
  "ResponseCodeClass code = Itoa (go_div code 100) @ ''xx''"

text \<open>Modelled from the spec: \<^verbatim>\<open>NewStatsReporter\<close> of package ingress is not among the
  sources. The specification gives two observations, an event counter \<^verbatim>\<open>event_count\<close>
  and a latency distribution \<^verbatim>\<open>event_dispatch_latencies\<close>, tagged by namespace, broker,
  event type, event source, response code and response code class, whose views are
  registered once when the reporter is created.\<close>

definition ingress_NewStatsReporter :: "metricskey \<Rightarrow> worker \<Rightarrow> error + (ingress_reporter \<times> worker)" where
  "ingress_NewStatsReporter K w =
     (case NewKey (LabelNamespaceName K) of Inl err \<Rightarrow> Inl err | Inr nsTag \<Rightarrow>
     (case NewKey (LabelBrokerName K) of Inl err \<Rightarrow> Inl err | Inr brokerTag \<Rightarrow>
     (case NewKey (LabelEventType K) of Inl err \<Rightarrow> Inl err | Inr eventTypeTag \<Rightarrow>
     (case NewKey (LabelEventSource K) of Inl err \<Rightarrow> Inl err | Inr eventSourceTag \<Rightarrow>
     (case NewKey (LabelResponseCode K) of Inl err \<Rightarrow> Inl err | Inr responseCodeTag \<Rightarrow>
     (case NewKey (LabelResponseCodeClass K) of Inl err \<Rightarrow> Inl err | Inr responseCodeClassTag \<Rightarrow>
       (let r = \<lparr>ingress_namespaceTagKey = nsTag, ingress_brokerTagKey = brokerTag,
                 ingress_eventTypeTagKey = eventTypeTag, ingress_eventSourceTagKey = eventSourceTag,
                 ingress_responseCodeKey = responseCodeTag,
                 ingress_responseCodeClassKey = responseCodeClassTag\<rparr>;
            keys = [nsTag, brokerTag, eventTypeTag, eventSourceTag, responseCodeTag, responseCodeClassTag]
        in (case Register \<lparr>Name = [], Description = ''event counter'',
                           Measure = eventCountM, Aggregation = Count, TagKeys = keys\<rparr> w of
              Inl err \<Rightarrow> Inl err
            | Inr w' \<Rightarrow>
           (case Register \<lparr>Name = [], Description = ''dispatch latency distribution'',
                           Measure = dispatchTimeInMsecM, Aggregation = Distribution,
                           TagKeys = keys\<rparr> w' of
              Inl err \<Rightarrow> Inl err
            | Inr w'' \<Rightarrow> Inr (r, w''))))))))))"

text \<open>Modelled from the spec: the tags of both ingress observations, "tagged analogously,
  additionally tagged by the numeric status code and its class".\<close>

definition ingress_generateTag ::
  "ingress_reporter \<Rightarrow> ingress_ReportArgs \<Rightarrow> int \<Rightarrow> error + tag_map" where
  "ingress_generateTag r args responseCode =
     New [] [Insert (ingress_namespaceTagKey r) (ingress_ns args),
             Insert (ingress_brokerTagKey r) (ingress_broker args),
             Insert (ingress_eventTypeTagKey r) (ingress_eventType args),
             Insert (ingress_eventSourceTagKey r) (ingress_eventSource args),
             Insert (ingress_responseCodeKey r) (Itoa responseCode),
             Insert (ingress_responseCodeClassKey r) (ResponseCodeClass responseCode)]"

text \<open>Modelled from the spec: \<^verbatim>\<open>ReportEventCount\<close> of package ingress, called by the test
  with the arguments and a status code, "increments a counter view" under those tags.\<close>

definition ingress_ReportEventCount ::
  "ingress_reporter \<Rightarrow> ingress_ReportArgs \<Rightarrow> int \<Rightarrow> worker \<Rightarrow> error option \<times> worker" where
  "ingress_ReportEventCount r args responseCode w =
     (case ingress_generateTag r args responseCode of
        Inl e \<Rightarrow> (Some e, w)
      | Inr ctx \<Rightarrow> (None, Record ctx eventCountM 1 w))"

text \<open>Modelled from the spec: \<^verbatim>\<open>ReportEventDispatchTime\<close> of package ingress "records a
  duration observation into a distribution view"; the observation is the duration in
  milliseconds.\<close>

definition ingress_ReportEventDispatchTime ::
  "ingress_reporter \<Rightarrow> ingress_ReportArgs \<Rightarrow> int \<Rightarrow> Duration \<Rightarrow> worker \<Rightarrow> error option \<times> worker" where
  "ingress_ReportEventDispatchTime r args responseCode d w =
     (case ingress_generateTag r args responseCode of
        Inl e \<Rightarrow> (Some e, w)
      | Inr ctx \<Rightarrow> (None, Record ctx dispatchTimeInMsecM (go_div d Millisecond) w))"

text \<open>The tag set of an ingress observation, and the conditions under which the tag
  machinery accepts it: label names that are valid and pairwise different, argument
  fields that are valid tag values.\<close>

definition ingressTags :: "metricskey \<Rightarrow> ingress_ReportArgs \<Rightarrow> int \<Rightarrow> tag_map" where
  "ingressTags K args responseCode =
     [(LabelNamespaceName K, ingress_ns args),
      (LabelBrokerName K, ingress_broker args),
      (LabelEventType K, ingress_eventType args),
      (LabelEventSource K, ingress_eventSource args),
      (LabelResponseCode K, Itoa responseCode),
      (LabelResponseCodeClass K, ResponseCodeClass responseCode)]"

definition ingress_keys :: "metricskey \<Rightarrow> Key list" where
  "ingress_keys K = [LabelNamespaceName K, LabelBrokerName K, LabelEventType K,
                     LabelEventSource K, LabelResponseCode K, LabelResponseCodeClass K]"

definition ingress_valid_keys :: "metricskey \<Rightarrow> bool" where
  "ingress_valid_keys K = (list_all checkKeyName (ingress_keys K) \<and> distinct (ingress_keys K))"

definition ingress_valid_args :: "ingress_ReportArgs \<Rightarrow> bool" where
  "ingress_valid_args args = list_all checkValue
     [ingress_ns args, ingress_broker args, ingress_eventType args, ingress_eventSource args]"

text \<open>The arguments of the ingress test.\<close>

definition ingress_testArgs :: ingress_ReportArgs where
  "ingress_testArgs = \<lparr>ingress_ns = ''testns'', ingress_broker = ''testbroker'',
                        ingress_eventType = ''testeventtype'',
                        ingress_eventSource = ''testeventsource''\<rparr>"

text \<open>The arguments of the ingress test with a namespace of 256 bytes.\<close>

definition ingress_longNsArgs :: ingress_ReportArgs where
  "ingress_longNsArgs = ingress_testArgs\<lparr>ingress_ns := replicate 256 (CHR ''a'')\<rparr>"

text \<open>The reporter and the two registered views that a successful
  \<^verbatim>\<open>NewStatsReporter\<close> of the ingress package produces.\<close>

definition ingress_reporterOf :: "metricskey \<Rightarrow> ingress_reporter" where
  "ingress_reporterOf K = \<lparr>ingress_namespaceTagKey = LabelNamespaceName K,
      ingress_brokerTagKey = LabelBrokerName K,
      ingress_eventTypeTagKey = LabelEventType K, ingress_eventSourceTagKey = LabelEventSource K,
      ingress_responseCodeKey = LabelResponseCode K,
      ingress_responseCodeClassKey = LabelResponseCodeClass K\<rparr>"

definition ingressView :: "metricskey \<Rightarrow> string \<Rightarrow> string \<Rightarrow> Aggregation \<Rightarrow> View" where
  "ingressView K m d a = \<lparr>Name = m, Description = d, Measure = m, Aggregation = a,
                           TagKeys = ingress_keys K\<rparr>"

definition ingress_started :: "metricskey \<Rightarrow> worker \<Rightarrow> worker" where
  "ingress_started K w = w @
     [\<lparr>view = ingressView K eventCountM ''event counter'' Count, collected = []\<rparr>,
      \<lparr>view = ingressView K dispatchTimeInMsecM ''dispatch latency distribution'' Distribution,
        collected = []\<rparr>]"

text \<open>What \<open>Record\<close> does to one registered view.\<close>

definition recordIn :: "tag_map \<Rightarrow> string \<Rightarrow> int \<Rightarrow> viewInternal \<Rightarrow> viewInternal" where
  "recordIn ctx m x vi =
     (if Measure (view vi) = m
      then vi\<lparr>collected := addSample (row_tags (TagKeys (view vi)) ctx) x (collected vi)\<rparr>
      else vi)"

section \<open>Facts about the tag and view machinery\<close>

lemma registered_append:
  "registered n (w @ [vi]) = (registered n w \<or> Name (view vi) = n)"
  by (induction w) (auto simp: registered_def)

lemma registered_iff: "registered n w = (\<exists>vi \<in> set w. Name (view vi) = n)"
  by (induction w) (auto simp: registered_def)

lemma registered_Unregister:
  "registered n (Unregister names w) = (registered n w \<and> n \<notin> set names)"
  by (auto simp: registered_iff Unregister_def)

lemma NewKey_ok: "checkKeyName name \<Longrightarrow> NewKey name = Inr name"
  by (simp add: NewKey_def)

lemma Register_fresh:
  "\<not> registered (Measure v) w \<Longrightarrow> Name v = [] \<Longrightarrow>
   Register v w = Inr (w @ [\<lparr>view = v\<lparr>Name := Measure v\<rparr>, collected = []\<rparr>])"
  by (simp add: Register_def registered_def)

lemma Register_same:
  "find (\<lambda>vi. Name (view vi) = Measure v) w = Some x \<Longrightarrow> Name v = [] \<Longrightarrow>
   same (view x) (v\<lparr>Name := Measure v\<rparr>) \<Longrightarrow> Register v w = Inr w"
  by (simp add: Register_def)

lemma Register_different:
  "find (\<lambda>vi. Name (view vi) = Measure v) w = Some x \<Longrightarrow> Name v = [] \<Longrightarrow>
   \<not> same (view x) (v\<lparr>Name := Measure v\<rparr>) \<Longrightarrow> isl (Register v w)"
  by (simp add: Register_def)

lemma Insert_map_of:
  "Insert k v m = Inr m' \<Longrightarrow>
   map_of m' k' = (if map_of m k' = None \<and> k' = k then Some v else map_of m k')"
  by (auto simp: Insert_def map_add_def split: if_splits option.splits)

lemma map_of_row_tags:
  "map_of (row_tags keys m) k =
     (if k \<in> set keys
      then (case map_of m k of None \<Rightarrow> None | Some v \<Rightarrow> (if v = [] then None else Some v))
      else None)"
  by (induction keys) (auto simp: row_tags_def List.map_filter_simps split: option.splits)

lemma row_tags_sub:
  "distinct (map fst m) \<Longrightarrow> set m' \<subseteq> set m \<Longrightarrow> row_tags (map fst m') m = nonempty m'"
proof (induction m')
  case Nil
  then show ?case by (simp add: row_tags_def nonempty_def List.map_filter_simps)
next
  case (Cons t m')
  obtain k v where t: "t = (k, v)" by (cases t)
  from Cons.prems t have "map_of m k = Some v"
    by (intro map_of_is_SomeI) simp_all
  moreover from Cons have "row_tags (map fst m') m = nonempty m'" by simp
  ultimately show ?case
    by (simp add: t row_tags_def nonempty_def List.map_filter_simps)
qed

lemma row_tags_self: "distinct (map fst m) \<Longrightarrow> row_tags (map fst m) m = nonempty m"
  by (rule row_tags_sub) simp_all

lemma addSample_tags:
  "set (map fst (addSample sig x rs)) = insert sig (set (map fst rs))"
  by (induction sig x rs rule: addSample.induct) auto

lemma same_tags_refl: "same_tags s s"
  by (simp add: same_tags_def list_all_iff)

lemma Record_map: "Record ctx m x w = map (recordIn ctx m x) w"
  by (simp add: Record_def recordIn_def)

lemma view_recordIn: "view (recordIn ctx m x vi) = view vi"
  by (simp add: recordIn_def)

lemma find_Record:
  "find (\<lambda>vi. Name (view vi) = n) (Record ctx m x w) =
     map_option (recordIn ctx m x) (find (\<lambda>vi. Name (view vi) = n) w)"
  by (induction w) (simp_all add: Record_map view_recordIn)

lemma find_fresh_append:
  "\<not> registered n w \<Longrightarrow>
   find (\<lambda>vi. Name (view vi) = n) (w @ ws) = find (\<lambda>vi. Name (view vi) = n) ws"
  by (induction w) (auto simp: registered_def split: if_splits)

lemma find_Unregister:
  "n \<in> set names \<Longrightarrow> find (\<lambda>vi. Name (view vi) = n) (Unregister names w) = None"
  by (induction w) (auto simp: Unregister_def)

section \<open>The apiserver stats reporter: creation and registration\<close>

lemma eventCountView_fields:
  "Name (eventCountView K) = eventCountM" "Measure (eventCountView K) = eventCountM"
  "Aggregation (eventCountView K) = Count"
  "TagKeys (eventCountView K) = [LabelNamespaceName K, LabelEventSource K, LabelEventType K,
                                 LabelImporterName K, LabelImporterResourceGroup K]"
  by (simp_all add: eventCountView_def)

lemma NewStatsReporter_fresh:
  assumes "valid_keys K" and "\<not> registered eventCountM w"
  shows "NewStatsReporter K w = Inr (reporterOf K, w @ [\<lparr>view = eventCountView K, collected = []\<rparr>])"
  using assms
  by (simp add: NewStatsReporter_def valid_keys_def NewKey_ok Register_fresh reporterOf_def
      eventCountView_def)

lemma NewStatsReporter_again:
  assumes "valid_keys K"
      and "find (\<lambda>vi. Name (view vi) = eventCountM) w = Some x"
      and "Aggregation (view x) = Count" and "Measure (view x) = eventCountM"
  shows "NewStatsReporter K w = Inr (reporterOf K, w)"
proof -
  from assms(2) have n: "Name (view x) = eventCountM"
    by (auto simp: find_Some_iff)
  show ?thesis
    using assms n
    by (simp add: NewStatsReporter_def valid_keys_def NewKey_ok Register_def same_def
        reporterOf_def)
qed

lemma NewStatsReporter_different:
  assumes "find (\<lambda>vi. Name (view vi) = eventCountM) w = Some x"
      and "Aggregation (view x) \<noteq> Count \<or> Measure (view x) \<noteq> eventCountM"
  shows "isl (NewStatsReporter K w)"
  using assms
  by (auto simp add: NewStatsReporter_def Register_def same_def Let_def split: sum.splits)

lemma NewStatsReporter_Inr_fresh:
  assumes "NewStatsReporter K w = Inr (r, w')" and "\<not> registered eventCountM w"
  shows "r = reporterOf K \<and> w' = w @ [\<lparr>view = eventCountView K, collected = []\<rparr>]"
  using assms
  by (auto simp add: NewStatsReporter_def Register_def registered_def Let_def NewKey_def
        reporterOf_def eventCountView_def split: sum.splits if_splits)

lemma view_reports: "map view (reports r calls w) = map view w"
proof (induction calls arbitrary: w)
  case Nil
  then show ?case by simp
next
  case (Cons c calls)
  obtain args err where c: "c = (args, err)" by (cases c)
  have "map view (snd (ReportEventCount r args err w)) = map view w"
    by (simp add: ReportEventCount_def Record_map view_recordIn split: sum.splits)
  then show ?case by (simp add: c Cons.IH)
qed

lemma find_by_views:
  assumes "map view w' = map view w" and "find (\<lambda>vi. Name (view vi) = n) w = Some x"
  shows "\<exists>y. find (\<lambda>vi. Name (view vi) = n) w' = Some y \<and> view y = view x"
  using assms
proof (induction w arbitrary: w')
  case Nil
  then show ?case by simp
next
  case (Cons a w)
  from Cons.prems(1) obtain b w'' where w': "w' = b # w''" and b: "view b = view a"
    and rest: "map view w'' = map view w" by (cases w') auto
  show ?case
  proof (cases "Name (view a) = n")
    case True
    with Cons.prems(2) w' b show ?thesis by simp
  next
    case False
    with Cons.prems(2) have "find (\<lambda>vi. Name (view vi) = n) w = Some x" by simp
    from Cons.IH [OF rest this] False w' b show ?thesis by simp
  qed
qed

lemma valid_keys_knative: "valid_keys knativeKeys"
  by (simp add: valid_keys_def knativeKeys_def checkKeyName_def maxKeyLength_def isASCII_def)

lemma NewStatsReporter_knative:
  "NewStatsReporter knativeKeys [] =
     Inr (reporterOf knativeKeys, [\<lparr>view = eventCountView knativeKeys, collected = []\<rparr>])"
  using NewStatsReporter_fresh [OF valid_keys_knative, of "[]"]
  by (simp add: registered_def)

lemmas report_eval_defs =
  checkValue_def maxKeyLength_def isASCII_def knativeKeys_def eventCountM_def
  ReportEventCount_def generateTag_def Insert_def Result_def importerResourceGroupValue_def
  Record_def row_tags_def List.map_filter_simps rowsOf_def samplesFor_def same_tags_def testArgs_def
  emptyArgs_def testTags_def emptyTags_def emptyContext_def reporterOf_def eventCountView_def

text \<open>C6 as stated, refuted: a second call of \<^verbatim>\<open>NewStatsReporter\<close> without an
  unregister in between returns no error. After a first call and two reports, the second
  call succeeds and leaves the registry as it was, with the view and its count of 2.\<close>

theorem second_NewStatsReporter_counterexample:
  "NewStatsReporter knativeKeys [] =
     Inr (reporterOf knativeKeys, [\<lparr>view = eventCountView knativeKeys, collected = []\<rparr>]) \<and>
   NewStatsReporter knativeKeys [\<lparr>view = eventCountView knativeKeys, collected = []\<rparr>] =
     Inr (reporterOf knativeKeys, [\<lparr>view = eventCountView knativeKeys, collected = []\<rparr>]) \<and>
   reports (reporterOf knativeKeys) [(testArgs, None), (testArgs, None)]
       [\<lparr>view = eventCountView knativeKeys, collected = []\<rparr>] =
     [\<lparr>view = eventCountView knativeKeys, collected = [(testTags, [1, 1])]\<rparr>] \<and>
   NewStatsReporter knativeKeys
       [\<lparr>view = eventCountView knativeKeys, collected = [(testTags, [1, 1])]\<rparr>] =
     Inr (reporterOf knativeKeys,
          [\<lparr>view = eventCountView knativeKeys, collected = [(testTags, [1, 1])]\<rparr>])"
proof -
  have again: "NewStatsReporter knativeKeys [\<lparr>view = eventCountView knativeKeys, collected = rs\<rparr>] =
     Inr (reporterOf knativeKeys, [\<lparr>view = eventCountView knativeKeys, collected = rs\<rparr>])" for rs
  proof -
    have f: "find (\<lambda>vi. Name (view vi) = eventCountM)
        [\<lparr>view = eventCountView knativeKeys, collected = rs\<rparr>] =
        Some \<lparr>view = eventCountView knativeKeys, collected = rs\<rparr>"
      by (simp add: eventCountView_fields)
    show ?thesis
      by (rule NewStatsReporter_again [OF valid_keys_knative f])
         (simp_all add: eventCountView_fields)
  qed
  have run: "reports (reporterOf knativeKeys) [(testArgs, None), (testArgs, None)]
       [\<lparr>view = eventCountView knativeKeys, collected = []\<rparr>] =
     [\<lparr>view = eventCountView knativeKeys, collected = [(testTags, [1, 1])]\<rparr>]"
    by (simp add: report_eval_defs)
  show ?thesis
    using NewStatsReporter_knative again run by simp
qed

text \<open>C6, amended. On a registry without the \<^verbatim>\<open>event_count\<close> view, a first call of
  \<^verbatim>\<open>NewStatsReporter\<close> succeeds and registers the view with no data. A later call
  without an unregister in between, after any reports, returns no error either: the view is
  the same, and the registry keeps it with the data collected so far. After
  \<^verbatim>\<open>unregister\<close>, a call succeeds again and registers the view anew, with no data. The
  label names are assumed to be valid key names.\<close>

theorem NewStatsReporter_registers_once:
  assumes "valid_keys K" and "\<not> registered ''event_count'' w"
  shows "\<exists>r w1. NewStatsReporter K w = Inr (r, w1) \<and> registered ''event_count'' w1 \<and>
           rowsOf ''event_count'' w1 = [] \<and>
           (\<forall>calls. NewStatsReporter K (reports r calls w1) = Inr (r, reports r calls w1)) \<and>
           (\<forall>calls. \<exists>w2. NewStatsReporter K (unregister (reports r calls w1)) = Inr (r, w2) \<and>
                     registered ''event_count'' w2 \<and> rowsOf ''event_count'' w2 = [])"
proof -
  let ?new = "\<lparr>view = eventCountView K, collected = []\<rparr>"
  let ?w1 = "w @ [?new]"
  have fresh: "\<not> registered eventCountM w" using assms(2) by (simp add: eventCountM_def)
  have first: "NewStatsReporter K w = Inr (reporterOf K, ?w1)"
    by (rule NewStatsReporter_fresh [OF assms(1) fresh])
  have reg1: "registered eventCountM ?w1"
    by (simp add: registered_append eventCountView_fields)
  have f1: "find (\<lambda>vi. Name (view vi) = eventCountM) ?w1 = Some ?new"
    by (simp add: find_fresh_append [OF fresh] eventCountView_fields)
  have rows1: "rowsOf eventCountM ?w1 = []"
    by (simp add: rowsOf_def f1)
  have second: "NewStatsReporter K (reports (reporterOf K) calls ?w1) =
      Inr (reporterOf K, reports (reporterOf K) calls ?w1)" for calls
  proof -
    from find_by_views [OF view_reports f1]
    obtain y where y: "find (\<lambda>vi. Name (view vi) = eventCountM) (reports (reporterOf K) calls ?w1) = Some y"
      and v: "view y = eventCountView K" by auto
    show ?thesis
      by (rule NewStatsReporter_again [OF assms(1) y]) (simp_all add: v eventCountView_fields)
  qed
  have third: "\<exists>w2. NewStatsReporter K (unregister (reports (reporterOf K) calls ?w1)) =
        Inr (reporterOf K, w2) \<and> registered eventCountM w2 \<and> rowsOf eventCountM w2 = []" for calls
  proof -
    let ?u = "unregister (reports (reporterOf K) calls ?w1)"
    have unreg: "\<not> registered eventCountM ?u"
      by (simp add: unregister_def registered_Unregister eventCountM_def)
    have "NewStatsReporter K ?u = Inr (reporterOf K, ?u @ [?new])"
      by (rule NewStatsReporter_fresh [OF assms(1) unreg])
    moreover have "registered eventCountM (?u @ [?new])"
      by (simp add: registered_append eventCountView_fields)
    moreover have "rowsOf eventCountM (?u @ [?new]) = []"
      by (simp add: rowsOf_def find_fresh_append [OF unreg] eventCountView_fields)
    ultimately show ?thesis by blast
  qed
  show ?thesis
    using first reg1 rows1 second third unfolding eventCountM_def by blast
qed

theorem NewStatsReporter_registers_once_witness:
  "valid_keys knativeKeys \<and> \<not> registered ''event_count'' [] \<and>
   (\<exists>r w1. NewStatsReporter knativeKeys [] = Inr (r, w1) \<and> registered ''event_count'' w1 \<and>
           rowsOf ''event_count'' w1 = [] \<and>
           NewStatsReporter knativeKeys (reports r [(testArgs, None), (testArgs, None)] w1) =
             Inr (r, reports r [(testArgs, None), (testArgs, None)] w1) \<and>
           (\<exists>w2. NewStatsReporter knativeKeys
                    (unregister (reports r [(testArgs, None), (testArgs, None)] w1)) = Inr (r, w2) \<and>
                 registered ''event_count'' w2 \<and> rowsOf ''event_count'' w2 = []))"
proof -
  have a: "valid_keys knativeKeys" by (rule valid_keys_knative)
  have b: "\<not> registered ''event_count'' []" by (simp add: registered_def)
  from NewStatsReporter_registers_once [OF a b]
  obtain r w1 where 1: "NewStatsReporter knativeKeys [] = Inr (r, w1)"
    and 2: "registered ''event_count'' w1" and 3: "rowsOf ''event_count'' w1 = []"
    and 4: "\<forall>calls. NewStatsReporter knativeKeys (reports r calls w1) = Inr (r, reports r calls w1)"
    and 5: "\<forall>calls. \<exists>w2. NewStatsReporter knativeKeys (unregister (reports r calls w1)) = Inr (r, w2) \<and>
                     registered ''event_count'' w2 \<and> rowsOf ''event_count'' w2 = []"
    by blast
  from 4 have p4: "NewStatsReporter knativeKeys (reports r [(testArgs, None), (testArgs, None)] w1) =
             Inr (r, reports r [(testArgs, None), (testArgs, None)] w1)" by blast
  from 5 have p5: "\<exists>w2. NewStatsReporter knativeKeys
                    (unregister (reports r [(testArgs, None), (testArgs, None)] w1)) = Inr (r, w2) \<and>
                 registered ''event_count'' w2 \<and> rowsOf ''event_count'' w2 = []" by blast
  show ?thesis
    using a b 1 2 3 p4 p5 by blast
qed

section \<open>The apiserver stats reporter: what a report records\<close>

lemma generateTag_last:
  assumes "generateTag r args (Insert k v) = Inr ctx"
      and "k \<notin> set [namespaceTagKey r, eventSourceTagKey r, eventTypeTagKey r, importerNameTagKey r]"
  shows "map_of ctx k = Some v"
proof -
  from assms(1) obtain m1 m2 m3 m4 where
    1: "Insert (namespaceTagKey r) (ns args) [] = Inr m1" and
    2: "Insert (eventSourceTagKey r) (eventSource args) m1 = Inr m2" and
    3: "Insert (eventTypeTagKey r) (eventType args) m2 = Inr m3" and
    4: "Insert (importerNameTagKey r) (apiServerImporter args) m3 = Inr m4" and
    5: "Insert k v m4 = Inr ctx"
    by (auto simp: generateTag_def split: sum.splits)
  have "map_of m1 k = None" using Insert_map_of [OF 1, of k] assms(2) by simp
  then have "map_of m2 k = None" using Insert_map_of [OF 2, of k] assms(2) by simp
  then have "map_of m3 k = None" using Insert_map_of [OF 3, of k] assms(2) by simp
  then have "map_of m4 k = None" using Insert_map_of [OF 4, of k] assms(2) by simp
  then show ?thesis using Insert_map_of [OF 5, of k] by simp
qed

lemma rg_inv_Record:
  assumes "rg_inv k w" and "map_of ctx k = Some importerResourceGroupValue"
  shows "rg_inv k (Record ctx m x w)"
proof -
  have "\<And>vi row. vi \<in> set w \<Longrightarrow> Name (view vi) = eventCountM \<Longrightarrow>
      row \<in> set (addSample (row_tags (TagKeys (view vi)) ctx) x (collected vi)) \<Longrightarrow>
      map_of (fst row) k = Some importerResourceGroupValue"
  proof -
    fix vi row
    assume vi: "vi \<in> set w" "Name (view vi) = eventCountM"
      and row: "row \<in> set (addSample (row_tags (TagKeys (view vi)) ctx) x (collected vi))"
    from row have "fst row \<in> set (map fst (addSample (row_tags (TagKeys (view vi)) ctx) x (collected vi)))"
      by simp
    then have "fst row = row_tags (TagKeys (view vi)) ctx \<or> fst row \<in> set (map fst (collected vi))"
      unfolding addSample_tags by simp
    then show "map_of (fst row) k = Some importerResourceGroupValue"
    proof
      assume "fst row = row_tags (TagKeys (view vi)) ctx"
      moreover have "k \<in> set (TagKeys (view vi))"
        using assms(1) vi by (simp add: rg_inv_def)
      ultimately show ?thesis
        using assms(2) by (simp add: map_of_row_tags importerResourceGroupValue_def)
    next
      assume "fst row \<in> set (map fst (collected vi))"
      then obtain row' where "row' \<in> set (collected vi)" and "fst row' = fst row"
        by auto
      then show ?thesis
        using assms(1) vi by (metis rg_inv_def)
    qed
  qed
  then show ?thesis
    using assms(1) by (auto simp: rg_inv_def Record_def)
qed

lemma rg_inv_ReportEventCount:
  assumes "rg_inv (importerResourceGroupTagKey r) w"
      and "importerResourceGroupTagKey r \<notin>
           set [namespaceTagKey r, eventSourceTagKey r, eventTypeTagKey r, importerNameTagKey r]"
  shows "rg_inv (importerResourceGroupTagKey r) (snd (ReportEventCount r args err w))"
  using assms
  by (auto simp: ReportEventCount_def split: sum.splits intro!: rg_inv_Record generateTag_last)

lemma rg_inv_reports:
  assumes "importerResourceGroupTagKey r \<notin>
           set [namespaceTagKey r, eventSourceTagKey r, eventTypeTagKey r, importerNameTagKey r]"
  shows "rg_inv (importerResourceGroupTagKey r) w \<Longrightarrow>
         rg_inv (importerResourceGroupTagKey r) (reports r calls w)"
proof (induction calls arbitrary: w)
  case Nil
  then show ?case by simp
next
  case (Cons c calls)
  obtain args err where c: "c = (args, err)" by (cases c)
  show ?case
    unfolding c reports.simps
    by (rule Cons.IH) (rule rg_inv_ReportEventCount [OF Cons.prems assms])
qed

lemma rg_inv_rowsOf:
  assumes "rg_inv k w" and "row \<in> set (rowsOf eventCountM w)"
  shows "map_of (fst row) k = Some importerResourceGroupValue"
proof (cases "find (\<lambda>vi. Name (view vi) = eventCountM) w")
  case None
  with assms(2) show ?thesis by (simp add: rowsOf_def)
next
  case (Some vi)
  then have "vi \<in> set w" "Name (view vi) = eventCountM"
    by (auto simp: find_Some_iff)
  with assms Some show ?thesis by (auto simp: rowsOf_def rg_inv_def)
qed

text \<open>C9. Whatever the arguments and errors of the calls, every row of the
  \<^verbatim>\<open>event_count\<close> view written by \<^verbatim>\<open>ReportEventCount\<close> carries the resource group tag
  with the value \<^verbatim>\<open>apiserversources.sources.eventing.knative.dev\<close>: after any sequence of
  calls on a reporter whose \<^verbatim>\<open>NewStatsReporter\<close> registered the view, no row has another
  value under that key. The resource group label is assumed to differ from the four labels
  set before it.\<close>

theorem resource_group_tag_constant:
  assumes "LabelImporterResourceGroup K \<notin>
           set [LabelNamespaceName K, LabelEventSource K, LabelEventType K, LabelImporterName K]"
      and "\<not> registered ''event_count'' w"
      and "NewStatsReporter K w = Inr (r, w0)"
  shows "\<forall>row \<in> set (rowsOf ''event_count'' (reports r calls w0)).
           map_of (fst row) (LabelImporterResourceGroup K) =
             Some ''apiserversources.sources.eventing.knative.dev''"
proof -
  have fresh: "\<not> registered eventCountM w" using assms(2) by (simp add: eventCountM_def)
  from NewStatsReporter_Inr_fresh [OF assms(3) fresh]
  have r: "r = reporterOf K" and w0: "w0 = w @ [\<lparr>view = eventCountView K, collected = []\<rparr>]"
    by simp_all
  have k: "importerResourceGroupTagKey r = LabelImporterResourceGroup K"
    by (simp add: r reporterOf_def)
  have "rg_inv (LabelImporterResourceGroup K) w0"
    using fresh by (auto simp: rg_inv_def w0 registered_iff eventCountView_def)
  then have "rg_inv (importerResourceGroupTagKey r) (reports r calls w0)"
    unfolding k [symmetric] using assms(1)
    by (intro rg_inv_reports) (simp_all add: r reporterOf_def)
  then show ?thesis
    using rg_inv_rowsOf [of "LabelImporterResourceGroup K" "reports r calls w0"]
    by (auto simp: k eventCountM_def importerResourceGroupValue_def)
qed

theorem resource_group_tag_constant_witness:
  "LabelImporterResourceGroup knativeKeys \<notin>
     set [LabelNamespaceName knativeKeys, LabelEventSource knativeKeys, LabelEventType knativeKeys,
          LabelImporterName knativeKeys] \<and>
   \<not> registered ''event_count'' [] \<and>
   NewStatsReporter knativeKeys [] =
     Inr (reporterOf knativeKeys, [\<lparr>view = eventCountView knativeKeys, collected = []\<rparr>]) \<and>
   rowsOf ''event_count''
     (reports (reporterOf knativeKeys) [(testArgs, None), (emptyArgs, Some ''delivery failed'')]
        [\<lparr>view = eventCountView knativeKeys, collected = []\<rparr>]) \<noteq> [] \<and>
   list_all (\<lambda>row. map_of (fst row) (LabelImporterResourceGroup knativeKeys) =
                     Some ''apiserversources.sources.eventing.knative.dev'')
     (rowsOf ''event_count''
        (reports (reporterOf knativeKeys) [(testArgs, None), (emptyArgs, Some ''delivery failed'')]
           [\<lparr>view = eventCountView knativeKeys, collected = []\<rparr>]))"
proof -
  have a: "LabelImporterResourceGroup knativeKeys \<notin>
     set [LabelNamespaceName knativeKeys, LabelEventSource knativeKeys, LabelEventType knativeKeys,
          LabelImporterName knativeKeys]"
    by (simp add: knativeKeys_def)
  have f: "\<not> registered ''event_count'' []" by (simp add: registered_def)
  note b = NewStatsReporter_knative
  have c: "rowsOf ''event_count''
     (reports (reporterOf knativeKeys) [(testArgs, None), (emptyArgs, Some ''delivery failed'')]
        [\<lparr>view = eventCountView knativeKeys, collected = []\<rparr>]) \<noteq> []"
    by (simp add: report_eval_defs)
  show ?thesis
    using a f b c
      resource_group_tag_constant [OF a f b,
        of "[(testArgs, None), (emptyArgs, Some ''delivery failed'')]"]
    by (simp add: list_all_iff)
qed

lemma checkValue_consts: "checkValue (Result err)" "checkValue importerResourceGroupValue"
  by (simp_all add: Result_def importerResourceGroupValue_def checkValue_def maxKeyLength_def isASCII_def)

lemma Insert_valid: "checkValue v \<Longrightarrow> \<not> isl (Insert k v m)"
  by (simp add: Insert_def)

lemma generateTag_succeeds:
  assumes "valid_args args" and "checkValue v"
  shows "\<exists>ctx. generateTag r args (Insert k v) = Inr ctx"
  using assms
  by (simp add: generateTag_def valid_args_def Insert_def)

lemma generateTag_resource_group:
  assumes "valid_args args"
      and "distinct (TagKeys (eventCountView K))"
  shows "generateTag (reporterOf K) args (Insert (LabelImporterResourceGroup K) importerResourceGroupValue) =
           Inr (apiserverTags K args)"
  using assms checkValue_consts(2)
  by (auto simp add: generateTag_def valid_args_def Insert_def reporterOf_def eventCountView_def apiserverTags_def)

lemma ReportEventCount_valid:
  assumes "valid_args args" and "distinct (TagKeys (eventCountView K))"
  shows "ReportEventCount (reporterOf K) args err w = (None, Record (apiserverTags K args) eventCountM 1 w)"
proof -
  from generateTag_succeeds [OF assms(1) checkValue_consts(1)]
  obtain ctx where "generateTag (reporterOf K) args (Insert (resultKey (reporterOf K)) (Result err)) = Inr ctx"
    by blast
  then show ?thesis
    using generateTag_resource_group [OF assms]
    by (simp add: ReportEventCount_def reporterOf_def)
qed

lemma row_tags_apiserver:
  assumes "distinct (TagKeys (eventCountView K))"
  shows "row_tags (TagKeys (eventCountView K)) (apiserverTags K args) =
           nonempty (apiserverTags K args)"
proof -
  have k: "TagKeys (eventCountView K) = map fst (apiserverTags K args)"
    by (simp add: eventCountView_def apiserverTags_def)
  show ?thesis
    unfolding k by (rule row_tags_self) (use assms k in simp)
qed

lemma reports_replicate:
  assumes "valid_args args" and "distinct (TagKeys (eventCountView K))"
  shows "reports (reporterOf K) (replicate N (args, err)) w =
           ((Record (apiserverTags K args) eventCountM 1) ^^ N) w"
proof (induction N arbitrary: w)
  case 0
  then show ?case by simp
next
  case (Suc N)
  show ?case
    by (simp add: ReportEventCount_valid [OF assms] Suc.IH funpow_swap1)
qed

lemma find_Record_pow:
  assumes "find (\<lambda>vi. Name (view vi) = eventCountM) w = Some \<lparr>view = eventCountView K, collected = rs\<rparr>"
      and "distinct (TagKeys (eventCountView K))"
  shows "find (\<lambda>vi. Name (view vi) = eventCountM) (((Record (apiserverTags K args) eventCountM 1) ^^ N) w) =
           Some \<lparr>view = eventCountView K,
                 collected = ((addSample (nonempty (apiserverTags K args)) 1) ^^ N) rs\<rparr>"
proof (induction N)
  case 0
  then show ?case using assms(1) by simp
next
  case (Suc N)
  then show ?case
    by (simp add: find_Record recordIn_def row_tags_apiserver [OF assms(2)])
       (simp add: eventCountView_def)
qed

lemma addSample_pow:
  "((addSample sig x) ^^ Suc N) [] = [(sig, replicate (Suc N) x)]"
  by (induction N) (simp_all add: replicate_append_same)

text \<open>For arguments whose fields are valid tag values, N reports with the same arguments on
  a newly registered view raise the count of their tag set (the non-empty fields and the
  resource group; no result tag) from 0 to N.\<close>

lemma ReportEventCount_N_times:
  assumes "valid_args args" and "distinct (TagKeys (eventCountView K))"
      and "NewStatsReporter K w = Inr (r, w0)"
      and "\<not> registered eventCountM w"
  shows "samplesFor ''event_count'' (nonempty (apiserverTags K args))
           (reports r (replicate N (args, err)) w0) = replicate N 1"
proof -
  note fresh = assms(4)
  from NewStatsReporter_Inr_fresh [OF assms(3) fresh]
  have r: "r = reporterOf K" and w0: "w0 = w @ [\<lparr>view = eventCountView K, collected = []\<rparr>]"
    by simp_all
  have f0: "find (\<lambda>vi. Name (view vi) = eventCountM) w0 = Some \<lparr>view = eventCountView K, collected = []\<rparr>"
    by (simp add: w0 find_fresh_append [OF fresh] eventCountView_def)
  note f = find_Record_pow [OF f0 assms(2), where args = args and N = N]
  show ?thesis
  proof (cases N)
    case 0
    then show ?thesis
      using f0 by (simp add: samplesFor_def rowsOf_def eventCountM_def)
  next
    case (Suc M)
    have "rowsOf eventCountM (reports r (replicate N (args, err)) w0) =
        [(nonempty (apiserverTags K args), replicate N 1)]"
      unfolding r reports_replicate [OF assms(1,2)] rowsOf_def f
      by (simp add: Suc addSample_pow del: funpow.simps)
    then show ?thesis
      by (simp add: samplesFor_def same_tags_refl eventCountM_def)
  qed
qed

text \<open>C1. The claim is that each call records an observation tagged with a result tag,
  "success" for a nil error and "failure" otherwise, besides the five other tags. On the
  arguments of \<^verbatim>\<open>TestStatsReporter\<close>, with a nil and with a non-nil error, the call
  succeeds and the row it writes has the namespace, event source, event type and resource
  group tags (the importer name is empty and left out) and no result tag: the context that
  carried the result tag is replaced before the measurement is recorded, and the view has
  no result key.\<close>

theorem ReportEventCount_records_no_result_tag:
  "NewStatsReporter knativeKeys [] =
     Inr (reporterOf knativeKeys, [\<lparr>view = eventCountView knativeKeys, collected = []\<rparr>]) \<and>
   ReportEventCount (reporterOf knativeKeys) testArgs None
       [\<lparr>view = eventCountView knativeKeys, collected = []\<rparr>] =
     (None, [\<lparr>view = eventCountView knativeKeys, collected = [(testTags, [1])]\<rparr>]) \<and>
   ReportEventCount (reporterOf knativeKeys) testArgs (Some ''delivery failed'')
       [\<lparr>view = eventCountView knativeKeys, collected = []\<rparr>] =
     (None, [\<lparr>view = eventCountView knativeKeys, collected = [(testTags, [1])]\<rparr>]) \<and>
   map_of testTags (metricsKeyEventing_Result knativeKeys) = None \<and>
   metricsKeyEventing_Result knativeKeys \<notin> set (TagKeys (eventCountView knativeKeys))"
  by (simp add: NewStatsReporter_knative) (simp add: report_eval_defs)

text \<open>C5. The claim is that N calls with the same arguments raise the count of the tag set
  by N, two calls with a nil error giving a count of 2 for the tag set with result=success.
  On the run of \<^verbatim>\<open>TestStatsReporter\<close> both calls succeed and the count of 2 is held by
  the row without a result tag; nothing is counted under the test's expected tag set
  \<^verbatim>\<open>wantTags1\<close>, nor under the recorded tags extended by result=success.\<close>

theorem two_reports_count_without_result_tag:
  "fst (ReportEventCount (reporterOf knativeKeys) testArgs None
         [\<lparr>view = eventCountView knativeKeys, collected = []\<rparr>]) = None \<and>
   fst (ReportEventCount (reporterOf knativeKeys) testArgs None
         (snd (ReportEventCount (reporterOf knativeKeys) testArgs None
                [\<lparr>view = eventCountView knativeKeys, collected = []\<rparr>]))) = None \<and>
   rowsOf ''event_count''
     (reports (reporterOf knativeKeys) [(testArgs, None), (testArgs, None)]
        [\<lparr>view = eventCountView knativeKeys, collected = []\<rparr>]) = [(testTags, [1, 1])] \<and>
   length (samplesFor ''event_count'' (wantTags1 knativeKeys)
     (reports (reporterOf knativeKeys) [(testArgs, None), (testArgs, None)]
        [\<lparr>view = eventCountView knativeKeys, collected = []\<rparr>])) = 0 \<and>
   length (samplesFor ''event_count'' (testTags @ [(metricsKeyEventing_Result knativeKeys, ''success'')])
     (reports (reporterOf knativeKeys) [(testArgs, None), (testArgs, None)]
        [\<lparr>view = eventCountView knativeKeys, collected = []\<rparr>])) = 0"
  by (simp add: report_eval_defs wantTags1_def)

text \<open>C10. The claim is that empty event type and event source are recorded under the
  wildcard value \<^verbatim>\<open>metricskey.Any\<close>. On the run of
  \<^verbatim>\<open>TestReporterEmptySourceAndType\<close> the four calls succeed; the context that is
  recorded carries the empty string as event source and event type, because the arguments
  are passed to \<^verbatim>\<open>tag.Insert\<close> unchanged; the count of 4 is held by a row with the
  namespace and resource group tags only, without an event source or event type tag; and
  whatever the value \<open>any\<close> of \<^verbatim>\<open>metricskey.Any\<close>, nothing is counted under the
  test's expected tag set.\<close>

theorem empty_source_and_type_not_recorded_as_Any:
  "generateTag (reporterOf knativeKeys) emptyArgs
       (Insert (importerResourceGroupTagKey (reporterOf knativeKeys)) importerResourceGroupValue) =
     Inr emptyContext \<and>
   map_of emptyContext (LabelEventSource knativeKeys) = Some [] \<and>
   map_of emptyContext (LabelEventType knativeKeys) = Some [] \<and>
   fst (ReportEventCount (reporterOf knativeKeys) emptyArgs None
         [\<lparr>view = eventCountView knativeKeys, collected = []\<rparr>]) = None \<and>
   rowsOf ''event_count''
     (reports (reporterOf knativeKeys)
        [(emptyArgs, None), (emptyArgs, None), (emptyArgs, None), (emptyArgs, None)]
        [\<lparr>view = eventCountView knativeKeys, collected = []\<rparr>]) = [(emptyTags, [1, 1, 1, 1])] \<and>
   map_of emptyTags (LabelEventSource knativeKeys) = None \<and>
   map_of emptyTags (LabelEventType knativeKeys) = None \<and>
   length (samplesFor ''event_count'' (wantTagsAny knativeKeys any)
     (reports (reporterOf knativeKeys)
        [(emptyArgs, None), (emptyArgs, None), (emptyArgs, None), (emptyArgs, None)]
        [\<lparr>view = eventCountView knativeKeys, collected = []\<rparr>])) = 0"
  by (simp add: report_eval_defs wantTagsAny_def)

section \<open>The adapter process\<close>

lemma gvrcs_loop_Inl:
  "gvrcs_loop w env i vs acc = Inl out \<Longrightarrow> \<not> reaches_Start out"
proof (induction vs arbitrary: i acc)
  case Nil
  then show ?case by simp
next
  case (Cons v vs)
  then show ?case
    by (auto split: if_splits sum.splits GroupVersion.splits)
qed

lemma gvrcs_loop_Inr:
  "gvrcs_loop w env i vs acc = Inr gs \<Longrightarrow>
     length vs \<le> length (Kind env) - i \<and> length vs \<le> length (Controller env) - i \<and>
     list_all (\<lambda>v. \<not> isl (ParseGroupVersion w v)) vs \<and>
     gs = acc @ map (guessed w) (zip vs (zip (drop i (Kind env)) (drop i (Controller env))))"
proof (induction vs arbitrary: i acc)
  case Nil
  then show ?case by simp
next
  case (Cons v vs)
  from Cons.prems have k: "i < length (Kind env)" and c: "i < length (Controller env)"
    by (auto split: if_splits)
  from Cons.prems k c obtain g ver where p: "ParseGroupVersion w v = Inr (GroupVersion g ver)"
    by (auto split: sum.splits GroupVersion.splits)
  let ?acc = "acc @ [GVRC (UnsafeGuessKindToResource w (GroupVersionKind g ver (Kind env ! i)))
                          (Controller env ! i)]"
  from Cons.prems k c p have rec: "gvrcs_loop w env (Suc i) vs ?acc = Inr gs"
    by simp
  note ih = Cons.IH [OF rec]
  have dk: "drop i (Kind env) = Kind env ! i # drop (Suc i) (Kind env)"
    using k by (simp add: Cons_nth_drop_Suc)
  have dc: "drop i (Controller env) = Controller env ! i # drop (Suc i) (Controller env)"
    using c by (simp add: Cons_nth_drop_Suc)
  have g: "guessed w (v, Kind env ! i, Controller env ! i) =
      GVRC (UnsafeGuessKindToResource w (GroupVersionKind g ver (Kind env ! i))) (Controller env ! i)"
    by (simp add: guessed_def p)
  have l1: "length (v # vs) \<le> length (Kind env) - i"
    using ih k by simp arith
  have l2: "length (v # vs) \<le> length (Controller env) - i"
    using ih c by simp arith
  have pa: "list_all (\<lambda>v. \<not> isl (ParseGroupVersion w v)) (v # vs)"
    using ih p by simp
  have eq: "gs = acc @ map (guessed w) (zip (v # vs) (zip (drop i (Kind env)) (drop i (Controller env))))"
    using ih by (simp add: dk dc g)
  show ?case
    using l1 l2 pa eq by blast
qed

lemma gvrcs_loop_complete:
  "length vs \<le> length (Kind env) - i \<Longrightarrow> length vs \<le> length (Controller env) - i \<Longrightarrow>
   list_all (\<lambda>v. \<not> isl (ParseGroupVersion w v)) vs \<Longrightarrow>
   \<not> isl (gvrcs_loop w env i vs acc)"
proof (induction vs arbitrary: i acc)
  case Nil
  then show ?case by simp
next
  case (Cons v vs)
  from Cons.prems(1,2) have k: "i < length (Kind env)" and c: "i < length (Controller env)"
    by simp_all
  from Cons.prems(3) obtain g ver where p: "ParseGroupVersion w v = Inr (GroupVersion g ver)"
    by (cases "ParseGroupVersion w v") (auto intro: GroupVersion.exhaust)
  have "\<not> isl (gvrcs_loop w env (Suc i) vs
      (acc @ [GVRC (UnsafeGuessKindToResource w (GroupVersionKind g ver (Kind env ! i)))
                   (Controller env ! i)]))"
    using Cons.prems by (intro Cons.IH) simp_all
  then show ?case using k c p by simp
qed

lemma main_Returned:
  assumes "main K w = Returned opt res"
  shows "\<exists>env gs. envconfig_Process w = Inr env \<and>
     gvrcs_loop w env 0 (ApiVersion env) [] = Inr gs \<and>
     opt = Options (Namespace env) (Mode env) gs \<and> res = Start w opt"
  using assms
  by (auto simp: main_def Let_def dest: gvrcs_loop_Inl
           split: sum.splits if_splits option.splits prod.splits)

lemma main_not_started:
  assumes "envconfig_Process w = Inr env" and "isl (gvrcs_loop w env 0 (ApiVersion env) [])"
  shows "\<not> reaches_Start (main K w)"
proof
  assume "reaches_Start (main K w)"
  then obtain opt res where "main K w = Returned opt res"
    by (cases "main K w") simp_all
  from main_Returned [OF this] assms show False by auto
qed

lemma exit_status_zero: "(exit_status out = 0) = reaches_Start out"
  by (cases out) simp_all

lemma gvrcs_loop_Start_update:
  "gvrcs_loop (w\<lparr>Start := s\<rparr>) env i vs acc = gvrcs_loop w env i vs acc"
  by (induction vs arbitrary: i acc) (simp_all split: sum.splits GroupVersion.splits)

lemma main_Start_update:
  "exit_status (main K (w\<lparr>Start := s\<rparr>)) = exit_status (main K w)"
  by (simp add: main_def Let_def gvrcs_loop_Start_update
        sum.case_distrib [of exit_status] option.case_distrib [of exit_status]
        prod.case_distrib [of exit_status] if_distrib [of exit_status]
        cong: sum.case_cong option.case_cong if_cong)

lemmas run_defs = main_def Let_def exampleWorld_def exampleEnv_def startFailsWorld_def
  moreKindsWorld_def fewerKindsWorld_def moreKindsEnv_def fewerKindsEnv_def
  unparsableEnv_def unparsableWorld_def
  NewStatsReporter_def NewKey_def checkKeyName_def maxKeyLength_def
  isASCII_def Register_def same_def knativeKeys_def eventCountM_def eventCountM_Description_def
  k8s_ParseGroupVersion_def k8s_UnsafeGuessKindToResource_def toLower_def

text \<open>C2 as stated, refuted: in a run where every startup step succeeds and
  \<^verbatim>\<open>a.Start\<close> returns a non-nil error, \<^verbatim>\<open>main\<close> returns after \<^verbatim>\<open>Start\<close> and the
  exit status is 0.\<close>

theorem Start_error_exit_status_counterexample:
  "main knativeKeys startFailsWorld =
     Returned (Options ''default'' ''Ref''
                [GVRC (GroupVersionResource [] ''v1'' ''pods'') False,
                 GVRC (GroupVersionResource [] ''v1'' ''nosuchkinds'') True])
              (Some ''start failed'') \<and>
   exit_status (main knativeKeys startFailsWorld) = 0"
  by (simp add: run_defs)

text \<open>C2, amended. The exit status of the process does not depend on what
  \<^verbatim>\<open>a.Start\<close> returns: replacing the result of \<^verbatim>\<open>Start\<close> by any other leaves the exit
  status unchanged, and the status is 0 exactly when \<^verbatim>\<open>main\<close> got as far as calling
  \<^verbatim>\<open>Start\<close>. A non-nil error of \<^verbatim>\<open>Start\<close> is only logged as a warning.\<close>

theorem exit_status_independent_of_Start:
  "exit_status (main K (w\<lparr>Start := s\<rparr>)) = exit_status (main K w) \<and>
   (exit_status (main K w) = 0) = reaches_Start (main K w)"
  by (simp add: main_Start_update exit_status_zero)

text \<open>C3 as stated, refuted: in a run whose second descriptor is of a kind the API server
  does not serve, \<^verbatim>\<open>main\<close> reports no startup error; it guesses a resource name for that
  kind and calls \<^verbatim>\<open>a.Start\<close> with both descriptors.\<close>

theorem unresolvable_descriptor_counterexample:
  "envconfig_Process exampleWorld = Inr exampleEnv \<and>
   list_ex (unresolvable exampleWorld) (zip (ApiVersion exampleEnv) (Kind exampleEnv)) \<and>
   main knativeKeys exampleWorld =
     Returned (Options ''default'' ''Ref''
                [GVRC (GroupVersionResource [] ''v1'' ''pods'') False,
                 GVRC (GroupVersionResource [] ''v1'' ''nosuchkinds'') True])
              None"
  by (simp add: run_defs unresolvable_def)

text \<open>C3, amended. A descriptor whose apiVersion does not parse as a group/version is a
  fatal startup error: \<^verbatim>\<open>main\<close> never calls \<^verbatim>\<open>a.Start\<close>. The kind is not resolved
  during startup: whenever \<^verbatim>\<open>main\<close> calls \<^verbatim>\<open>a.Start\<close>, the options hold one entry per
  configured apiVersion, in order, each with the resource name guessed from its kind.\<close>

theorem unparsable_apiVersion_is_fatal:
  assumes "envconfig_Process w = Inr env"
  shows "(list_ex (\<lambda>v. isl (ParseGroupVersion w v)) (ApiVersion env) \<longrightarrow>
            \<not> reaches_Start (main K w)) \<and>
         (\<forall>opt res. main K w = Returned opt res \<longrightarrow>
            opt = Options (Namespace env) (Mode env)
                    (map (guessed w) (zip (ApiVersion env) (zip (Kind env) (Controller env)))))"
proof (intro conjI impI allI)
  assume bad: "list_ex (\<lambda>v. isl (ParseGroupVersion w v)) (ApiVersion env)"
  show "\<not> reaches_Start (main K w)"
  proof
    assume "reaches_Start (main K w)"
    then obtain opt res where "main K w = Returned opt res"
      by (cases "main K w") simp_all
    from main_Returned [OF this] assms obtain gs
      where "gvrcs_loop w env 0 (ApiVersion env) [] = Inr gs" by auto
    from gvrcs_loop_Inr [OF this]
    have "list_all (\<lambda>v. \<not> isl (ParseGroupVersion w v)) (ApiVersion env)" by simp
    with bad show False by (auto simp: list_all_iff list_ex_iff)
  qed
next
  fix opt res
  assume "main K w = Returned opt res"
  from main_Returned [OF this] assms obtain gs
    where loop: "gvrcs_loop w env 0 (ApiVersion env) [] = Inr gs"
      and opt: "opt = Options (Namespace env) (Mode env) gs" by auto
  from gvrcs_loop_Inr [OF loop] opt
  show "opt = Options (Namespace env) (Mode env)
                (map (guessed w) (zip (ApiVersion env) (zip (Kind env) (Controller env))))"
    by simp
qed

theorem unparsable_apiVersion_is_fatal_witness:
  "envconfig_Process unparsableWorld = Inr unparsableEnv \<and>
   list_ex (\<lambda>v. isl (ParseGroupVersion unparsableWorld v)) (ApiVersion unparsableEnv) \<and>
   \<not> reaches_Start (main knativeKeys unparsableWorld) \<and>
   main knativeKeys unparsableWorld = Fatal ''Error parsing APIVersion'' \<and>
   envconfig_Process moreKindsWorld = Inr moreKindsEnv \<and>
   main knativeKeys moreKindsWorld =
     Returned (Options (Namespace moreKindsEnv) (Mode moreKindsEnv)
       (map (guessed moreKindsWorld)
          (zip (ApiVersion moreKindsEnv) (zip (Kind moreKindsEnv) (Controller moreKindsEnv)))))
       None"
proof -
  have e: "envconfig_Process unparsableWorld = Inr unparsableEnv"
    by (simp add: unparsableWorld_def exampleWorld_def)
  have b: "list_ex (\<lambda>v. isl (ParseGroupVersion unparsableWorld v)) (ApiVersion unparsableEnv)"
    by (simp add: unparsableWorld_def unparsableEnv_def exampleWorld_def exampleEnv_def
        k8s_ParseGroupVersion_def)
  have m: "main knativeKeys unparsableWorld = Fatal ''Error parsing APIVersion''"
    by (simp add: run_defs)
  have e': "envconfig_Process moreKindsWorld = Inr moreKindsEnv"
    by (simp add: moreKindsWorld_def exampleWorld_def)
  have m': "main knativeKeys moreKindsWorld =
     Returned (Options ''default'' ''Ref'' [GVRC (GroupVersionResource [] ''v1'' ''pods'') False])
              None"
    by (simp add: run_defs)
  show ?thesis
    using e b m e' m' unparsable_apiVersion_is_fatal [OF e, of knativeKeys]
      unparsable_apiVersion_is_fatal [OF e', of knativeKeys]
    by simp
qed

text \<open>C4 as stated, refuted: with one apiVersion, two kinds and one controller flag the
  lists differ in length, yet the loop completes and \<^verbatim>\<open>main\<close> calls \<^verbatim>\<open>a.Start\<close> with
  the descriptor built from the first entries.\<close>

theorem mismatched_lengths_counterexample:
  "envconfig_Process moreKindsWorld = Inr moreKindsEnv \<and>
   length (ApiVersion moreKindsEnv) = 1 \<and> length (Kind moreKindsEnv) = 2 \<and>
   main knativeKeys moreKindsWorld =
     Returned (Options ''default'' ''Ref'' [GVRC (GroupVersionResource [] ''v1'' ''pods'') False])
              None"
  by (simp add: run_defs)

text \<open>C4, amended. When the Kind list or the Controller list is shorter than the ApiVersion
  list, the descriptor loop fails (it indexes past the end of the shorter list, unless an
  earlier apiVersion already failed to parse) and \<^verbatim>\<open>main\<close> never calls \<^verbatim>\<open>a.Start\<close>:
  no descriptor list is produced. When both lists are at least as long as the ApiVersion
  list and every apiVersion parses, the loop produces one descriptor per apiVersion and the
  surplus entries of Kind and Controller are ignored.\<close>

theorem short_Kind_or_Controller_fails:
  assumes "envconfig_Process w = Inr env"
  shows "(length (Kind env) < length (ApiVersion env) \<or>
          length (Controller env) < length (ApiVersion env) \<longrightarrow>
            isl (gvrcs_loop w env 0 (ApiVersion env) []) \<and> \<not> reaches_Start (main K w)) \<and>
         (length (ApiVersion env) \<le> length (Kind env) \<and>
          length (ApiVersion env) \<le> length (Controller env) \<and>
          list_all (\<lambda>v. \<not> isl (ParseGroupVersion w v)) (ApiVersion env) \<longrightarrow>
            gvrcs_loop w env 0 (ApiVersion env) [] =
              Inr (map (guessed w) (zip (ApiVersion env) (zip (Kind env) (Controller env)))))"
proof (intro conjI impI)
  assume short: "length (Kind env) < length (ApiVersion env) \<or>
          length (Controller env) < length (ApiVersion env)"
  show "isl (gvrcs_loop w env 0 (ApiVersion env) [])"
  proof (cases "gvrcs_loop w env 0 (ApiVersion env) []")
    case (Inl out)
    then show ?thesis by simp
  next
    case (Inr gs)
    from gvrcs_loop_Inr [OF Inr] short show ?thesis by simp
  qed
  from main_not_started [OF assms this] show "\<not> reaches_Start (main K w)" .
next
  assume ok: "length (ApiVersion env) \<le> length (Kind env) \<and>
          length (ApiVersion env) \<le> length (Controller env) \<and>
          list_all (\<lambda>v. \<not> isl (ParseGroupVersion w v)) (ApiVersion env)"
  then have "\<not> isl (gvrcs_loop w env 0 (ApiVersion env) [])"
    by (intro gvrcs_loop_complete) simp_all
  then obtain gs where gs: "gvrcs_loop w env 0 (ApiVersion env) [] = Inr gs"
    by (cases "gvrcs_loop w env 0 (ApiVersion env) []") simp_all
  from gvrcs_loop_Inr [OF gs] gs
  show "gvrcs_loop w env 0 (ApiVersion env) [] =
      Inr (map (guessed w) (zip (ApiVersion env) (zip (Kind env) (Controller env))))"
    by simp
qed

theorem short_Kind_or_Controller_fails_witness:
  "envconfig_Process fewerKindsWorld = Inr fewerKindsEnv \<and>
   length (Kind fewerKindsEnv) < length (ApiVersion fewerKindsEnv) \<and>
   isl (gvrcs_loop fewerKindsWorld fewerKindsEnv 0 (ApiVersion fewerKindsEnv) []) \<and>
   \<not> reaches_Start (main knativeKeys fewerKindsWorld) \<and>
   main knativeKeys fewerKindsWorld = Panicked ''index out of range'' \<and>
   envconfig_Process moreKindsWorld = Inr moreKindsEnv \<and>
   length (ApiVersion moreKindsEnv) \<le> length (Kind moreKindsEnv) \<and>
   length (ApiVersion moreKindsEnv) \<le> length (Controller moreKindsEnv) \<and>
   list_all (\<lambda>v. \<not> isl (ParseGroupVersion moreKindsWorld v)) (ApiVersion moreKindsEnv) \<and>
   gvrcs_loop moreKindsWorld moreKindsEnv 0 (ApiVersion moreKindsEnv) [] =
     Inr [GVRC (GroupVersionResource [] ''v1'' ''pods'') False]"
proof -
  have e: "envconfig_Process fewerKindsWorld = Inr fewerKindsEnv"
    by (simp add: fewerKindsWorld_def exampleWorld_def)
  have s: "length (Kind fewerKindsEnv) < length (ApiVersion fewerKindsEnv)"
    by (simp add: fewerKindsEnv_def exampleEnv_def)
  have m: "main knativeKeys fewerKindsWorld = Panicked ''index out of range''"
    by (simp add: run_defs)
  have e': "envconfig_Process moreKindsWorld = Inr moreKindsEnv"
    by (simp add: moreKindsWorld_def exampleWorld_def)
  have l: "length (ApiVersion moreKindsEnv) \<le> length (Kind moreKindsEnv)"
    "length (ApiVersion moreKindsEnv) \<le> length (Controller moreKindsEnv)"
    by (simp_all add: moreKindsEnv_def exampleEnv_def)
  have p: "list_all (\<lambda>v. \<not> isl (ParseGroupVersion moreKindsWorld v)) (ApiVersion moreKindsEnv)"
    by (simp add: moreKindsWorld_def moreKindsEnv_def exampleWorld_def exampleEnv_def
        k8s_ParseGroupVersion_def)
  have g: "map (guessed moreKindsWorld)
      (zip (ApiVersion moreKindsEnv) (zip (Kind moreKindsEnv) (Controller moreKindsEnv))) =
      [GVRC (GroupVersionResource [] ''v1'' ''pods'') False]"
    by (simp add: guessed_def moreKindsWorld_def moreKindsEnv_def exampleWorld_def exampleEnv_def
        k8s_ParseGroupVersion_def k8s_UnsafeGuessKindToResource_def toLower_def)
  show ?thesis
    using e s m e' l p
      short_Kind_or_Controller_fails [OF e, of knativeKeys]
      short_Kind_or_Controller_fails [OF e', of knativeKeys]
    by (simp add: g)
qed

section \<open>The broker ingress stats reporter\<close>

lemma digit_char_ascii: "k < 10 \<Longrightarrow> isASCII [''0123456789'' ! k]"
proof -
  assume "k < 10"
  then have "''0123456789'' ! k \<in> set ''0123456789''" by (intro nth_mem) simp
  moreover have "\<forall>c \<in> set ''0123456789''. 32 \<le> (of_char c :: nat) \<and> (of_char c :: nat) \<le> 126"
    by simp
  ultimately have "32 \<le> (of_char (''0123456789'' ! k) :: nat) \<and>
      (of_char (''0123456789'' ! k) :: nat) \<le> 126"
    by blast
  then show ?thesis
    by (simp add: isASCII_def)
qed

lemma isASCII_append: "isASCII (xs @ ys) = (isASCII xs \<and> isASCII ys)"
  by (simp add: isASCII_def)

lemma digits_ascii: "isASCII (digits n)"
proof (induction n rule: digits.induct)
  case (1 n)
  show ?case
  proof (cases "n < 10")
    case True
    then show ?thesis by (subst digits.simps) (simp add: digit_char_ascii)
  next
    case False
    with 1 show ?thesis
      by (subst digits.simps) (simp add: isASCII_append digit_char_ascii)
  qed
qed

lemma digits_length: "n < 10 ^ Suc k \<Longrightarrow> length (digits n) \<le> Suc k"
proof (induction k arbitrary: n)
  case 0
  then show ?case by (subst digits.simps) simp
next
  case (Suc k)
  show ?case
  proof (cases "n < 10")
    case True
    then show ?thesis by (subst digits.simps) simp
  next
    case False
    from Suc.prems have "n div 10 < 10 ^ Suc k" by simp
    from Suc.IH [OF this] False show ?thesis
      by (subst digits.simps) simp
  qed
qed

lemma Itoa_ascii: "isASCII (Itoa i)"
  using digits_ascii by (simp add: Itoa_def isASCII_def)

lemma Itoa_length:
  assumes "- (2 ^ 63) \<le> i" and "i < 2 ^ 63"
  shows "length (Itoa i) \<le> 20"
proof -
  have "nat \<bar>i\<bar> < 10 ^ Suc 18" using assms by simp
  from digits_length [OF this] have "length (digits (nat \<bar>i\<bar>)) \<le> 19" by simp
  then show ?thesis by (auto simp: Itoa_def abs_if)
qed

lemma go_div_range:
  assumes "- (2 ^ 63) \<le> i" and "i < 2 ^ 63"
  shows "- (2 ^ 63) \<le> go_div i 100 \<and> go_div i 100 < 2 ^ 63"
  using assms by (auto simp: go_div_def)

lemma checkValue_Itoa:
  assumes "- (2 ^ 63) \<le> i" and "i < 2 ^ 63"
  shows "checkValue (Itoa i)"
  using Itoa_length [OF assms] Itoa_ascii by (simp add: checkValue_def maxKeyLength_def)

lemma checkValue_ResponseCodeClass:
  assumes "- (2 ^ 63) \<le> i" and "i < 2 ^ 63"
  shows "checkValue (ResponseCodeClass i)"
proof -
  from go_div_range [OF assms] have "length (Itoa (go_div i 100)) \<le> 20"
    by (intro Itoa_length) simp_all
  moreover have "isASCII ''xx''" by (simp add: isASCII_def)
  ultimately show ?thesis
    using Itoa_ascii
    by (simp add: checkValue_def maxKeyLength_def ResponseCodeClass_def isASCII_append)
qed

lemma Itoa_202: "Itoa 202 = ''202''"
  by (simp add: Itoa_def digits.simps)

lemma ResponseCodeClass_202: "ResponseCodeClass 202 = ''2xx''"
  by (simp add: ResponseCodeClass_def go_div_def Itoa_def digits.simps)

lemma ingress_NewStatsReporter_Inr:
  assumes "ingress_NewStatsReporter K w = Inr (r, w0)"
      and "\<not> registered eventCountM w" and "\<not> registered dispatchTimeInMsecM w"
  shows "r = ingress_reporterOf K \<and> w0 = ingress_started K w"
proof -
  have f1: "find (\<lambda>vi. Name (view vi) = eventCountM) w = None"
    using assms(2) by (simp add: registered_def)
  have f2: "find (\<lambda>vi. Name (view vi) = dispatchTimeInMsecM) (w @ [vi]) = None"
    if "Name (view vi) = eventCountM" for vi
    using assms(3) that
    by (simp add: find_fresh_append eventCountM_def dispatchTimeInMsecM_def)
  show ?thesis
    using assms(1)
    by (auto simp add: ingress_NewStatsReporter_def Register_def Let_def NewKey_def f1 f2
          ingress_reporterOf_def ingress_started_def ingressView_def ingress_keys_def
        split: sum.splits if_splits)
qed

lemma ingress_keys_differ:
  assumes "ingress_valid_keys K"
  shows "LabelBrokerName K \<noteq> LabelNamespaceName K"
    "LabelEventType K \<noteq> LabelNamespaceName K" "LabelEventType K \<noteq> LabelBrokerName K"
    "LabelEventSource K \<noteq> LabelNamespaceName K" "LabelEventSource K \<noteq> LabelBrokerName K"
    "LabelEventSource K \<noteq> LabelEventType K"
    "LabelResponseCode K \<noteq> LabelNamespaceName K" "LabelResponseCode K \<noteq> LabelBrokerName K"
    "LabelResponseCode K \<noteq> LabelEventType K" "LabelResponseCode K \<noteq> LabelEventSource K"
    "LabelResponseCodeClass K \<noteq> LabelNamespaceName K"
    "LabelResponseCodeClass K \<noteq> LabelBrokerName K"
    "LabelResponseCodeClass K \<noteq> LabelEventType K"
    "LabelResponseCodeClass K \<noteq> LabelEventSource K"
    "LabelResponseCodeClass K \<noteq> LabelResponseCode K"
  using assms by (auto simp: ingress_valid_keys_def ingress_keys_def)

lemma ingress_generateTag_ok:
  assumes "ingress_valid_keys K" and "ingress_valid_args args"
      and "checkValue (Itoa code)" and "checkValue (ResponseCodeClass code)"
  shows "ingress_generateTag (ingress_reporterOf K) args code = Inr (ingressTags K args code)"
proof -
  from assms(2) have v: "checkValue (ingress_ns args)" "checkValue (ingress_broker args)"
      "checkValue (ingress_eventType args)" "checkValue (ingress_eventSource args)"
    by (simp_all add: ingress_valid_args_def)
  note ne = ingress_keys_differ [OF assms(1)]
  show ?thesis
    using v assms(3,4) ne ne [symmetric]
    by (simp add: ingress_generateTag_def ingress_reporterOf_def ingressTags_def Insert_def)
qed

lemma ingress_generateTag_invalid:
  assumes "\<not> ingress_valid_args args"
  shows "ingress_generateTag r args code = Inl errInvalidValue"
  using assms
  by (auto simp add: ingress_generateTag_def ingress_valid_args_def Insert_def)

lemma row_tags_ingress:
  assumes "ingress_valid_keys K"
  shows "row_tags (ingress_keys K) (ingressTags K args code) = nonempty (ingressTags K args code)"
proof -
  have k: "ingress_keys K = map fst (ingressTags K args code)"
    by (simp add: ingress_keys_def ingressTags_def)
  from assms have "distinct (ingress_keys K)" by (simp add: ingress_valid_keys_def)
  then show ?thesis
    unfolding k by (rule row_tags_self)
qed

lemma Itoa_nonempty: "Itoa i \<noteq> []"
  by (simp add: Itoa_def) (subst digits.simps, simp)

lemma ingress_code_tags:
  assumes "ingress_valid_keys K"
  shows "map_of (nonempty (ingressTags K args code)) (LabelResponseCode K) = Some (Itoa code)"
    and "map_of (nonempty (ingressTags K args code)) (LabelResponseCodeClass K) =
           Some (ResponseCodeClass code)"
  using ingress_keys_differ [OF assms] Itoa_nonempty [of code]
  by (auto simp: ingressTags_def nonempty_def ResponseCodeClass_def)

lemma find_ingress_count:
  assumes "\<not> registered eventCountM w"
  shows "find (\<lambda>vi. Name (view vi) = eventCountM) (ingress_started K w) =
     Some \<lparr>view = ingressView K eventCountM ''event counter'' Count, collected = []\<rparr>"
  using assms by (simp add: ingress_started_def find_fresh_append ingressView_def)

lemma find_ingress_latency:
  assumes "\<not> registered dispatchTimeInMsecM w"
  shows "find (\<lambda>vi. Name (view vi) = dispatchTimeInMsecM) (ingress_started K w) =
     Some \<lparr>view = ingressView K dispatchTimeInMsecM ''dispatch latency distribution'' Distribution,
           collected = []\<rparr>"
  using assms
  by (simp add: ingress_started_def find_fresh_append ingressView_def eventCountM_def
      dispatchTimeInMsecM_def)

lemma one_record:
  assumes "find (\<lambda>vi. Name (view vi) = n) w = Some \<lparr>view = ingressView K n d a, collected = []\<rparr>"
      and "ingress_valid_keys K"
  shows "rowsOf n (Record (ingressTags K args code) n x w) =
           [(nonempty (ingressTags K args code), [x])]"
  using assms
  by (simp add: rowsOf_def find_Record recordIn_def ingressView_def row_tags_ingress)

lemma two_records:
  assumes "find (\<lambda>vi. Name (view vi) = n) w = Some \<lparr>view = ingressView K n d a, collected = []\<rparr>"
      and "ingress_valid_keys K"
  shows "rowsOf n (Record (ingressTags K args code) n y (Record (ingressTags K args code) n x w)) =
           [(nonempty (ingressTags K args code), [x, y])]"
  using assms
  by (simp add: rowsOf_def find_Record recordIn_def ingressView_def row_tags_ingress)

lemma ingress_valid_keys_knative: "ingress_valid_keys knativeKeys"
  by (simp add: ingress_valid_keys_def ingress_keys_def knativeKeys_def checkKeyName_def
      maxKeyLength_def isASCII_def)

lemma ingress_valid_testArgs: "ingress_valid_args ingress_testArgs"
  by (simp add: ingress_valid_args_def ingress_testArgs_def checkValue_def maxKeyLength_def
      isASCII_def)

lemma ingress_NewStatsReporter_knative:
  "ingress_NewStatsReporter knativeKeys [] =
     Inr (ingress_reporterOf knativeKeys, ingress_started knativeKeys [])"
  by (simp add: ingress_NewStatsReporter_def NewKey_def checkKeyName_def maxKeyLength_def
      isASCII_def Register_def same_def knativeKeys_def eventCountM_def
      dispatchTimeInMsecM_def ingress_reporterOf_def ingress_started_def ingressView_def
      ingress_keys_def Let_def)

lemma ingress_invalid_longNsArgs: "\<not> ingress_valid_args ingress_longNsArgs"
  by (simp add: ingress_valid_args_def ingress_longNsArgs_def checkValue_def maxKeyLength_def)

lemma rowsOf_ingress_started:
  "rowsOf ''event_count'' (ingress_started knativeKeys []) = []"
  "rowsOf ''event_dispatch_latencies'' (ingress_started knativeKeys []) = []"
  by (simp_all add: rowsOf_def ingress_started_def ingressView_def eventCountM_def
      dispatchTimeInMsecM_def)

text \<open>C7 as stated, refuted: the claim is for every \<^verbatim>\<open>ReportArgs\<close> value. With a
  namespace of 256 bytes the tag machinery rejects the value:
  \<^verbatim>\<open>ReportEventDispatchTime\<close> returns an error for both durations and the
  \<^verbatim>\<open>event_dispatch_latencies\<close> view stays empty, so there is no distribution of count 2.\<close>

theorem ingress_dispatch_time_counterexample:
  "ingress_NewStatsReporter knativeKeys [] =
     Inr (ingress_reporterOf knativeKeys, ingress_started knativeKeys []) \<and>
   ingress_ReportEventDispatchTime (ingress_reporterOf knativeKeys) ingress_longNsArgs 202
       (1100 * Millisecond) (ingress_started knativeKeys []) =
     (Some errInvalidValue, ingress_started knativeKeys []) \<and>
   ingress_ReportEventDispatchTime (ingress_reporterOf knativeKeys) ingress_longNsArgs 202
       (9100 * Millisecond) (ingress_started knativeKeys []) =
     (Some errInvalidValue, ingress_started knativeKeys []) \<and>
   rowsOf ''event_dispatch_latencies'' (ingress_started knativeKeys []) = []"
  by (simp add: ingress_NewStatsReporter_knative ingress_ReportEventDispatchTime_def
      ingress_generateTag_invalid [OF ingress_invalid_longNsArgs] rowsOf_ingress_started)

text \<open>C7, amended. On a reporter whose views were newly registered, for every status code (a
  Go \<^verbatim>\<open>int\<close>): when the fields of the arguments are valid tag values (printable ASCII, at
  most 255 bytes), two calls of the ingress reporter's \<^verbatim>\<open>ReportEventDispatchTime\<close> with
  durations of 1100ms and 9100ms succeed and leave the \<^verbatim>\<open>event_dispatch_latencies\<close> view
  with one row for the tag set (the non-empty fields, the response code and its class),
  holding exactly the two observations 1100 and 9100: a count of 2. When a field is not a
  valid tag value, the call returns an error and records nothing.\<close>

theorem ingress_dispatch_time_distribution:
  assumes "ingress_valid_keys K"
      and "- (2 ^ 63) \<le> code \<and> code < 2 ^ 63"
      and "\<not> registered ''event_count'' w \<and> \<not> registered ''event_dispatch_latencies'' w"
      and "ingress_NewStatsReporter K w = Inr (r, w0)"
  shows "(ingress_valid_args args \<longrightarrow>
          (\<exists>w1 w2.
             ingress_ReportEventDispatchTime r args code (1100 * Millisecond) w0 = (None, w1) \<and>
             ingress_ReportEventDispatchTime r args code (9100 * Millisecond) w1 = (None, w2) \<and>
             rowsOf ''event_dispatch_latencies'' w2 =
               [(nonempty (ingressTags K args code), [1100, 9100])] \<and>
             samplesFor ''event_dispatch_latencies'' (nonempty (ingressTags K args code)) w2 =
               [1100, 9100] \<and>
             length (samplesFor ''event_dispatch_latencies''
                       (nonempty (ingressTags K args code)) w2) = 2)) \<and>
         (\<not> ingress_valid_args args \<longrightarrow>
            ingress_ReportEventDispatchTime r args code d w0 = (Some errInvalidValue, w0))"
proof (intro conjI impI)
  have fresh: "\<not> registered eventCountM w" "\<not> registered dispatchTimeInMsecM w"
    using assms(3) by (simp_all add: eventCountM_def dispatchTimeInMsecM_def)
  from ingress_NewStatsReporter_Inr [OF assms(4) fresh]
  have r: "r = ingress_reporterOf K" and w0: "w0 = ingress_started K w" by simp_all
  {
    assume valid: "ingress_valid_args args"
    have c1: "checkValue (Itoa code)" using assms(2) by (simp add: checkValue_Itoa)
    have c2: "checkValue (ResponseCodeClass code)"
      using assms(2) by (simp add: checkValue_ResponseCodeClass)
    note tags = ingress_generateTag_ok [OF assms(1) valid c1 c2]
    let ?ctx = "ingressTags K args code"
    let ?w1 = "Record ?ctx dispatchTimeInMsecM 1100 w0"
    let ?w2 = "Record ?ctx dispatchTimeInMsecM 9100 ?w1"
    have 1: "ingress_ReportEventDispatchTime r args code (1100 * Millisecond) w0 = (None, ?w1)"
      by (simp add: ingress_ReportEventDispatchTime_def r tags go_div_def Millisecond_def)
    have 2: "ingress_ReportEventDispatchTime r args code (9100 * Millisecond) ?w1 = (None, ?w2)"
      by (simp add: ingress_ReportEventDispatchTime_def r tags go_div_def Millisecond_def)
    have 3: "rowsOf dispatchTimeInMsecM ?w2 = [(nonempty ?ctx, [1100, 9100])]"
      unfolding w0 by (rule two_records [OF find_ingress_latency [OF fresh(2)] assms(1)])
    have 4: "samplesFor dispatchTimeInMsecM (nonempty ?ctx) ?w2 = [1100, 9100]"
      by (simp add: samplesFor_def 3 same_tags_refl)
    show "\<exists>w1 w2.
             ingress_ReportEventDispatchTime r args code (1100 * Millisecond) w0 = (None, w1) \<and>
             ingress_ReportEventDispatchTime r args code (9100 * Millisecond) w1 = (None, w2) \<and>
             rowsOf ''event_dispatch_latencies'' w2 =
               [(nonempty (ingressTags K args code), [1100, 9100])] \<and>
             samplesFor ''event_dispatch_latencies'' (nonempty (ingressTags K args code)) w2 =
               [1100, 9100] \<and>
             length (samplesFor ''event_dispatch_latencies''
                       (nonempty (ingressTags K args code)) w2) = 2"
      using 1 2 3 4 by (simp add: dispatchTimeInMsecM_def)
  }
  {
    assume invalid: "\<not> ingress_valid_args args"
    show "ingress_ReportEventDispatchTime r args code d w0 = (Some errInvalidValue, w0)"
      by (simp add: ingress_ReportEventDispatchTime_def ingress_generateTag_invalid [OF invalid])
  }
qed

theorem ingress_dispatch_time_distribution_witness:
  "ingress_valid_keys knativeKeys \<and>
   - (2 ^ 63) \<le> (202 :: int) \<and> (202 :: int) < 2 ^ 63 \<and>
   \<not> registered ''event_count'' [] \<and> \<not> registered ''event_dispatch_latencies'' [] \<and>
   ingress_NewStatsReporter knativeKeys [] =
     Inr (ingress_reporterOf knativeKeys, ingress_started knativeKeys []) \<and>
   ingress_valid_args ingress_testArgs \<and>
   (\<exists>w1 w2.
     ingress_ReportEventDispatchTime (ingress_reporterOf knativeKeys) ingress_testArgs 202
        (1100 * Millisecond) (ingress_started knativeKeys []) = (None, w1) \<and>
     ingress_ReportEventDispatchTime (ingress_reporterOf knativeKeys) ingress_testArgs 202
        (9100 * Millisecond) w1 = (None, w2) \<and>
     samplesFor ''event_dispatch_latencies''
        (nonempty (ingressTags knativeKeys ingress_testArgs 202)) w2 = [1100, 9100]) \<and>
   \<not> ingress_valid_args ingress_longNsArgs \<and>
   ingress_ReportEventDispatchTime (ingress_reporterOf knativeKeys) ingress_longNsArgs 202
       (1100 * Millisecond) (ingress_started knativeKeys []) =
     (Some errInvalidValue, ingress_started knativeKeys [])"
proof -
  have c: "- (2 ^ 63) \<le> (202 :: int) \<and> (202 :: int) < 2 ^ 63" by simp
  have f: "\<not> registered ''event_count'' [] \<and> \<not> registered ''event_dispatch_latencies'' []"
    by (simp add: registered_def)
  note t = ingress_dispatch_time_distribution
    [OF ingress_valid_keys_knative c f ingress_NewStatsReporter_knative]
  show ?thesis
    using ingress_valid_keys_knative ingress_valid_testArgs ingress_NewStatsReporter_knative
      ingress_invalid_longNsArgs c f
      t [of ingress_testArgs] t [of ingress_longNsArgs "1100 * Millisecond"]
    by auto
qed

text \<open>C8 as stated, refuted: the claim is for every \<^verbatim>\<open>ReportArgs\<close> value. With a
  namespace of 256 bytes and status 202, \<^verbatim>\<open>ReportEventCount\<close> returns an error and the
  \<^verbatim>\<open>event_count\<close> view stays empty: nothing is recorded under any tag set, and
  delivering two events does not give a count of 2.\<close>

theorem ingress_event_count_counterexample:
  "ingress_NewStatsReporter knativeKeys [] =
     Inr (ingress_reporterOf knativeKeys, ingress_started knativeKeys []) \<and>
   ingress_ReportEventCount (ingress_reporterOf knativeKeys) ingress_longNsArgs 202
       (ingress_started knativeKeys []) =
     (Some errInvalidValue, ingress_started knativeKeys []) \<and>
   rowsOf ''event_count'' (ingress_started knativeKeys []) = []"
  by (simp add: ingress_NewStatsReporter_knative ingress_ReportEventCount_def
      ingress_generateTag_invalid [OF ingress_invalid_longNsArgs] rowsOf_ingress_started)

text \<open>C8, amended. On a reporter whose views were newly registered: when the fields of the
  arguments are valid tag values (printable ASCII, at most 255 bytes), with status 202 each
  call of the ingress reporter's \<^verbatim>\<open>ReportEventCount\<close> succeeds and records under a tag
  set (the non-empty fields, the response code and its class) whose response code is "202"
  and whose response code class is "2xx"; after two calls the \<^verbatim>\<open>event_count\<close> view holds
  a count of exactly 2 for that tag set. When a field is not a valid tag value, the call
  returns an error and records nothing.\<close>

theorem ingress_event_count_202:
  assumes "ingress_valid_keys K"
      and "\<not> registered ''event_count'' w \<and> \<not> registered ''event_dispatch_latencies'' w"
      and "ingress_NewStatsReporter K w = Inr (r, w0)"
  shows "(ingress_valid_args args \<longrightarrow>
          (\<exists>w1 w2 tags.
             ingress_ReportEventCount r args 202 w0 = (None, w1) \<and>
             ingress_ReportEventCount r args 202 w1 = (None, w2) \<and>
             tags = nonempty (ingressTags K args 202) \<and>
             rowsOf ''event_count'' w1 = [(tags, [1])] \<and>
             rowsOf ''event_count'' w2 = [(tags, [1, 1])] \<and>
             map_of tags (LabelResponseCode K) = Some ''202'' \<and>
             map_of tags (LabelResponseCodeClass K) = Some ''2xx'' \<and>
             length (samplesFor ''event_count'' tags w2) = 2)) \<and>
         (\<not> ingress_valid_args args \<longrightarrow>
            ingress_ReportEventCount r args 202 w0 = (Some errInvalidValue, w0))"
proof (intro conjI impI)
  have fresh: "\<not> registered eventCountM w" "\<not> registered dispatchTimeInMsecM w"
    using assms(2) by (simp_all add: eventCountM_def dispatchTimeInMsecM_def)
  from ingress_NewStatsReporter_Inr [OF assms(3) fresh]
  have r: "r = ingress_reporterOf K" and w0: "w0 = ingress_started K w" by simp_all
  {
    assume valid: "ingress_valid_args args"
    have c1: "checkValue (Itoa 202)"
      by (simp add: Itoa_202 checkValue_def maxKeyLength_def isASCII_def)
    have c2: "checkValue (ResponseCodeClass 202)"
      by (simp add: ResponseCodeClass_202 checkValue_def maxKeyLength_def isASCII_def)
    note tags = ingress_generateTag_ok [OF assms(1) valid c1 c2]
    let ?ctx = "ingressTags K args 202"
    let ?w1 = "Record ?ctx eventCountM 1 w0"
    let ?w2 = "Record ?ctx eventCountM 1 ?w1"
    have 1: "ingress_ReportEventCount r args 202 w0 = (None, ?w1)"
      by (simp add: ingress_ReportEventCount_def r tags)
    have 2: "ingress_ReportEventCount r args 202 ?w1 = (None, ?w2)"
      by (simp add: ingress_ReportEventCount_def r tags)
    have 3: "rowsOf eventCountM ?w1 = [(nonempty ?ctx, [1])]"
      unfolding w0 by (rule one_record [OF find_ingress_count [OF fresh(1)] assms(1)])
    have 4: "rowsOf eventCountM ?w2 = [(nonempty ?ctx, [1, 1])]"
      unfolding w0 by (rule two_records [OF find_ingress_count [OF fresh(1)] assms(1)])
    have 5: "length (samplesFor eventCountM (nonempty ?ctx) ?w2) = 2"
      by (simp add: samplesFor_def 4 same_tags_refl)
    have 6: "map_of (nonempty ?ctx) (LabelResponseCode K) = Some ''202''"
      using ingress_code_tags(1) [OF assms(1), of args 202] by (simp add: Itoa_202)
    have 7: "map_of (nonempty ?ctx) (LabelResponseCodeClass K) = Some ''2xx''"
      using ingress_code_tags(2) [OF assms(1), of args 202] by (simp add: ResponseCodeClass_202)
    show "\<exists>w1 w2 tags.
             ingress_ReportEventCount r args 202 w0 = (None, w1) \<and>
             ingress_ReportEventCount r args 202 w1 = (None, w2) \<and>
             tags = nonempty (ingressTags K args 202) \<and>
             rowsOf ''event_count'' w1 = [(tags, [1])] \<and>
             rowsOf ''event_count'' w2 = [(tags, [1, 1])] \<and>
             map_of tags (LabelResponseCode K) = Some ''202'' \<and>
             map_of tags (LabelResponseCodeClass K) = Some ''2xx'' \<and>
             length (samplesFor ''event_count'' tags w2) = 2"
      using 1 2 3 4 5 6 7 unfolding eventCountM_def by blast
  }
  {
    assume invalid: "\<not> ingress_valid_args args"
    show "ingress_ReportEventCount r args 202 w0 = (Some errInvalidValue, w0)"
      by (simp add: ingress_ReportEventCount_def ingress_generateTag_invalid [OF invalid])
  }
qed

theorem ingress_event_count_202_witness:
  "ingress_valid_keys knativeKeys \<and>
   \<not> registered ''event_count'' [] \<and> \<not> registered ''event_dispatch_latencies'' [] \<and>
   ingress_NewStatsReporter knativeKeys [] =
     Inr (ingress_reporterOf knativeKeys, ingress_started knativeKeys []) \<and>
   ingress_valid_args ingress_testArgs \<and>
   (\<exists>w1 w2 tags.
     ingress_ReportEventCount (ingress_reporterOf knativeKeys) ingress_testArgs 202
        (ingress_started knativeKeys []) = (None, w1) \<and>
     ingress_ReportEventCount (ingress_reporterOf knativeKeys) ingress_testArgs 202 w1 = (None, w2) \<and>
     rowsOf ''event_count'' w2 = [(tags, [1, 1])] \<and>
     map_of tags ''response_code'' = Some ''202'' \<and>
     map_of tags ''response_code_class'' = Some ''2xx'' \<and>
     length (samplesFor ''event_count'' tags w2) = 2) \<and>
   \<not> ingress_valid_args ingress_longNsArgs \<and>
   ingress_ReportEventCount (ingress_reporterOf knativeKeys) ingress_longNsArgs 202
       (ingress_started knativeKeys []) =
     (Some errInvalidValue, ingress_started knativeKeys [])"
proof -
  have k: "LabelResponseCode knativeKeys = ''response_code''"
    "LabelResponseCodeClass knativeKeys = ''response_code_class''"
    by (simp_all add: knativeKeys_def)
  have f: "\<not> registered ''event_count'' [] \<and> \<not> registered ''event_dispatch_latencies'' []"
    by (simp add: registered_def)
  note t = ingress_event_count_202 [OF ingress_valid_keys_knative f ingress_NewStatsReporter_knative]
  from t [of ingress_testArgs] ingress_valid_testArgs
  have a: "\<exists>w1 w2 tags.
     ingress_ReportEventCount (ingress_reporterOf knativeKeys) ingress_testArgs 202
        (ingress_started knativeKeys []) = (None, w1) \<and>
     ingress_ReportEventCount (ingress_reporterOf knativeKeys) ingress_testArgs 202 w1 = (None, w2) \<and>
     rowsOf ''event_count'' w2 = [(tags, [1, 1])] \<and>
     map_of tags ''response_code'' = Some ''202'' \<and>
     map_of tags ''response_code_class'' = Some ''2xx'' \<and>
     length (samplesFor ''event_count'' tags w2) = 2"
    unfolding k by blast
  from t [of ingress_longNsArgs] ingress_invalid_longNsArgs
  have b: "ingress_ReportEventCount (ingress_reporterOf knativeKeys) ingress_longNsArgs 202
       (ingress_started knativeKeys []) =
     (Some errInvalidValue, ingress_started knativeKeys [])"
    by blast
  show ?thesis
    using ingress_valid_keys_knative f ingress_NewStatsReporter_knative ingress_valid_testArgs
      ingress_invalid_longNsArgs a b
    by blast
qed

end
